theory Spec2Isabelle
  imports Complex_Main "HOL-Library.Word"
begin

section \<open>DSVP: packet queues, demux coordinator, A/V sync, audio fill and track switching\<close>

text \<open>
  A shallow embedding of the synchronisation core of the player: \<open>player.c\<close> (packet queue,
  demux thread, video decode, seek), \<open>audio.c\<close> (audio decode, SDL callback, track cycling),
  \<open>subtitle.c\<close> (track cycling, cue selection) and the render tick of \<open>main.c\<close>, over the
  types of \<open>dsvp.h\<close>.

  Conventions.
  \<^item> The linked list \<open>first \<dots> last\<close> of a \<open>PacketQueue\<close> is the list \<open>nodes\<close>, front first.
  \<^item> The \<open>int\<close> counters of a queue and the \<open>int\<close> size of a packet are 32-bit words
    (\<open>+\<close> and \<open>-\<close> wrap, \<open>sint\<close> reads them).  Flags, stream indices, catalogue
    selections and byte counts of the audio buffer are HOL integers: they stay far inside
    the 32-bit range.
  \<^item> A \<open>double\<close> is a real number: rounding is not modelled.
  \<^item> FFmpeg and SDL are outside the repository.  Their objects are values of type
    variables and their functions are the fields of a record \<open>L\<close> of functions, so every
    theorem holds for every behaviour of the libraries.
  \<^item> A call that never returns (a blocking wait that is never woken) has the value \<open>None\<close>.
\<close>

subsection \<open>Constants of \<open>dsvp.h\<close> and of the libraries\<close>

definition PACKET_QUEUE_MAX :: "32 word" where
  "PACKET_QUEUE_MAX = 256"

definition AUDIO_BUF_SIZE :: int where
  "AUDIO_BUF_SIZE = 192000"

definition MAX_SUB_STREAMS :: int where
  "MAX_SUB_STREAMS = 16"

definition MAX_AUDIO_STREAMS :: int where
  "MAX_AUDIO_STREAMS = 16"

definition SUB_TEXT_SIZE :: nat where
  "SUB_TEXT_SIZE = 4096"

definition AV_NOPTS_VALUE :: int where
  "AV_NOPTS_VALUE = - (2 ^ 63)"

definition AV_TIME_BASE :: int where
  "AV_TIME_BASE = 1000000"

definition AVSEEK_FLAG_BACKWARD :: int where
  "AVSEEK_FLAG_BACKWARD = 1"

definition SDL_MIX_MAXVOLUME :: int where
  "SDL_MIX_MAXVOLUME = 128"

text \<open>C's \<open>%\<close> on \<open>int\<close> truncates towards zero; the conversion of a \<open>double\<close> to an integer
  type truncates towards zero as well.\<close>

definition c_rem :: "int \<Rightarrow> int \<Rightarrow> int" where
  "c_rem a b = sgn a * (\<bar>a\<bar> mod \<bar>b\<bar>)"

definition c_trunc :: "real \<Rightarrow> int" where
  "c_trunc x = (if 0 \<le> x then \<lfloor>x\<rfloor> else \<lceil>x\<rceil>)"

subsection \<open>Packets and the packet queue (\<open>player.c\<close>)\<close>

record AVPacket =
  stream_index :: int
  pts :: int
  duration :: int
  size_pkt :: "32 word"

record PacketQueue =
  nodes :: "AVPacket list"
  nb_packets :: "32 word"
  size_pq :: "32 word"
  abort_request :: int

text \<open>\<open>pq_init\<close>: \<open>memset\<close> to zero (the mutex and the condition variable are not data).\<close>

definition pq_init :: PacketQueue where
  "pq_init = \<lparr>nodes = [], nb_packets = 0, size_pq = 0, abort_request = 0\<rparr>"

text \<open>\<open>pq_put\<close>: the two allocations (\<open>av_malloc\<close> of the node, \<open>av_packet_alloc\<close>) may
  fail; their outcomes are the arguments \<open>node_ok\<close> and \<open>pkt_ok\<close>.  Returns the C return
  value and the queue.\<close>

definition pq_put :: "PacketQueue \<Rightarrow> AVPacket \<Rightarrow> bool \<Rightarrow> bool \<Rightarrow> int \<times> PacketQueue" where
  "pq_put q pkt node_ok pkt_ok =
     (if \<not> node_ok then (-1, q)
      else if \<not> pkt_ok then (-1, q)
      else (0, q\<lparr>nodes := nodes q @ [pkt],
                 nb_packets := nb_packets q + 1,
                 size_pq := size_pq q + size_pkt pkt\<rparr>))"

text \<open>What another thread has done to the queue when \<open>SDL_CondWait\<close> returns in a waiting
  \<open>pq_get\<close>: it has pushed a packet (\<open>pq_put\<close> signals the condition), it has set
  \<open>abort_request\<close> (\<open>player_close\<close>), or nothing (a spurious wake-up).\<close>

datatype wake = WakePut AVPacket | WakeAbort | WakeSpurious

fun wake_apply :: "wake \<Rightarrow> PacketQueue \<Rightarrow> PacketQueue" where
  "wake_apply (WakePut p) q = snd (pq_put q p True True)"
| "wake_apply WakeAbort q = q\<lparr>abort_request := 1\<rparr>"
| "wake_apply WakeSpurious q = q"

text \<open>The three results of \<open>pq_get\<close> and the \<open>int\<close> it returns for each: 1 with the packet
  moved into \<open>*pkt\<close>, 0 for empty, -1 for aborted.\<close>

datatype pq_result = PqPacket AVPacket | PqEmpty | PqAborted

fun pq_ret :: "pq_result \<Rightarrow> int" where
  "pq_ret (PqPacket p) = 1"
| "pq_ret PqEmpty = 0"
| "pq_ret PqAborted = -1"

text \<open>\<open>pq_get\<close>: the \<open>for (;;)\<close> loop.  Each \<open>SDL_CondWait\<close> consumes one wake-up of the
  list; when the list is used up the caller is still waiting and the call has not returned
  (\<open>None\<close>).\<close>

fun pq_get :: "PacketQueue \<Rightarrow> int \<Rightarrow> wake list \<Rightarrow> (pq_result \<times> PacketQueue) option" where
  "pq_get q block ws =
     (if abort_request q \<noteq> 0 then Some (PqAborted, q)
      else (case nodes q of
              node # rest \<Rightarrow>
                Some (PqPacket node,
                      q\<lparr>nodes := rest,
                        nb_packets := nb_packets q - 1,
                        size_pq := size_pq q - size_pkt node\<rparr>)
            | [] \<Rightarrow>
                if block = 0 then Some (PqEmpty, q)
                else (case ws of
                        [] \<Rightarrow> None
                      | w # ws' \<Rightarrow> pq_get (wake_apply w q) block ws')))"

declare pq_get.simps [simp del]

definition pq_flush :: "PacketQueue \<Rightarrow> PacketQueue" where
  "pq_flush q = q\<lparr>nodes := [], nb_packets := 0, size_pq := 0\<rparr>"

text \<open>A sequence of operations on one queue.  A pop that has not returned stops the
  sequence.\<close>

datatype pq_op = Push AVPacket bool bool | Pop int "wake list" | Flush

fun pq_apply :: "pq_op \<Rightarrow> PacketQueue \<Rightarrow> PacketQueue option" where
  "pq_apply (Push pkt node_ok pkt_ok) q = Some (snd (pq_put q pkt node_ok pkt_ok))"
| "pq_apply (Pop block ws) q =
     (case pq_get q block ws of None \<Rightarrow> None | Some (r, q') \<Rightarrow> Some q')"
| "pq_apply Flush q = Some (pq_flush q)"

fun pq_run :: "pq_op list \<Rightarrow> PacketQueue \<Rightarrow> PacketQueue option" where
  "pq_run [] q = Some q"
| "pq_run (x # xs) q = (case pq_apply x q of None \<Rightarrow> None | Some q' \<Rightarrow> pq_run xs q')"

text \<open>The counters agree with the list.\<close>

definition pq_counted :: "PacketQueue \<Rightarrow> bool" where
  "pq_counted q \<longleftrightarrow>
     nb_packets q = of_nat (length (nodes q)) \<and>
     size_pq q = sum_list (map size_pkt (nodes q))"

subsection \<open>Library objects and functions\<close>

record AVRational =
  num :: int
  den :: int

text \<open>\<open>av_q2d\<close> of libavutil: \<open>num / (double) den\<close>.\<close>

definition av_q2d :: "AVRational \<Rightarrow> real" where
  "av_q2d a = real_of_int (num a) / real_of_int (den a)"

record AVFrame =
  frame_pts :: int
  nb_samples :: int

text \<open>The return value of \<open>avcodec_receive_frame\<close>: 0 with a frame, \<open>AVERROR(EAGAIN)\<close>, or
  another negative value (an error, or the end of the stream).\<close>

datatype recv_result = RecvFrame AVFrame | RecvAgain | RecvError

text \<open>The return value of \<open>av_read_frame\<close>: 0 with a packet; negative at the end of the file
  (\<open>AVERROR_EOF\<close> or \<open>avio_feof\<close>); negative otherwise.\<close>

datatype read_result = ReadPacket AVPacket | ReadEOF | ReadError

datatype AVSubtitleType = SUBTITLE_NONE | SUBTITLE_BITMAP | SUBTITLE_TEXT | SUBTITLE_ASS

record AVSubtitleRect =
  rect_type :: AVSubtitleType
  rect_text :: "string option"
  rect_ass :: "string option"

record AVSubtitle =
  start_display_time :: nat
  end_display_time :: nat
  rects :: "AVSubtitleRect list"

text \<open>The functions of FFmpeg and SDL the core calls.  \<open>'c\<close> is a codec context, \<open>'r\<close> a
  resampler, \<open>'f\<close> a format context (the open container with its read position); a pointer
  that may be \<open>NULL\<close> is an \<open>option\<close>.  Each function returns its C return value and the
  object as the call leaves it.
  \<^item> \<open>avcodec_find_decoder L f i\<close>: there is a decoder for the codec of stream \<open>i\<close>.
  \<^item> \<open>avcodec_open2 L f i\<close>: \<open>avcodec_alloc_context3\<close>, \<open>avcodec_parameters_to_context\<close> and
    \<open>avcodec_open2\<close> for stream \<open>i\<close>: the return value of the last and the context.
  \<^item> \<open>swr_convert L r n fr\<close>: the number of samples converted per channel, the bytes
    written at the start of the output buffer, the resampler.
  \<^item> \<open>SDL_OpenAudioDevice L freq\<close>: the device id (0 on failure) and the frequency of the
    obtained \<open>SDL_AudioSpec\<close>.
  \<^item> \<open>SDL_MixAudioFormat L dst src volume\<close>: the bytes of \<open>dst\<close> after mixing \<open>src\<close> in.\<close>

record ('c, 'r, 'f) avlib =
  avcodec_receive_frame :: "'c option \<Rightarrow> recv_result \<times> 'c option"
  avcodec_send_packet :: "'c option \<Rightarrow> AVPacket \<Rightarrow> int \<times> 'c option"
  avcodec_flush_buffers :: "'c \<Rightarrow> 'c"
  avcodec_decode_subtitle2 :: "'c \<Rightarrow> AVPacket \<Rightarrow> (int \<times> int \<times> AVSubtitle) \<times> 'c"
  avcodec_find_decoder :: "'f \<Rightarrow> int \<Rightarrow> bool"
  avcodec_open2 :: "'f \<Rightarrow> int \<Rightarrow> int \<times> 'c"
  codec_sample_rate :: "'c \<Rightarrow> int"
  stream_time_base :: "'f \<Rightarrow> int \<Rightarrow> AVRational"
  av_seek_frame :: "'f \<Rightarrow> int \<Rightarrow> int \<Rightarrow> int \<times> 'f"
  av_read_frame :: "'f \<Rightarrow> read_result \<times> 'f"
  swr_alloc_set_opts2 :: "int \<Rightarrow> AVFrame \<Rightarrow> int \<times> 'r option"
  swr_init :: "'r option \<Rightarrow> int \<times> 'r option"
  swr_get_out_samples :: "'r option \<Rightarrow> int \<Rightarrow> int"
  swr_convert :: "'r option \<Rightarrow> int \<Rightarrow> AVFrame \<Rightarrow> int \<times> 8 word list \<times> 'r option"
  av_malloc :: "int \<Rightarrow> 8 word list option"
  SDL_OpenAudioDevice :: "int \<Rightarrow> int \<times> int"
  SDL_MixAudioFormat :: "8 word list \<Rightarrow> 8 word list \<Rightarrow> int \<Rightarrow> 8 word list"

subsection \<open>\<open>PlayerState\<close> (\<open>dsvp.h\<close>)\<close>

text \<open>The fields of \<open>PlayerState\<close> the core reads or writes, under their names.
  \<open>audio_spec_freq\<close> is \<open>audio_spec.freq\<close>.  \<open>dev_paused\<close> is not a field of the struct: it is
  the pause state of the SDL audio device \<open>audio_dev\<close>, which \<open>SDL_PauseAudioDevice\<close> sets.\<close>

record ('c, 'r, 'f) PlayerState =
  fmt_ctx :: 'f
  video_stream_idx :: int
  audio_stream_idx :: int
  video_codec_ctx :: "'c option"
  audio_codec_ctx :: "'c option"
  swr_ctx :: "'r option"
  audio_buf :: "8 word list option"
  audio_buf_size :: int
  audio_buf_index :: int
  video_pq :: PacketQueue
  audio_pq :: PacketQueue
  aud_stream_indices :: "int list"
  aud_stream_names :: "string list"
  aud_count :: int
  aud_selection :: int
  aud_osd :: string
  aud_osd_until :: real
  audio_dev :: int
  audio_spec_freq :: int
  dev_paused :: bool
  audio_clock :: real
  video_clock :: real
  frame_timer :: real
  frame_last_delay :: real
  frame_last_pts :: real
  seek_target :: int
  seek_request :: int
  seek_flags :: int
  seeking :: int
  playing :: int
  paused :: int
  quit :: int
  volume :: real
  eof :: int
  sub_stream_indices :: "int list"
  sub_stream_names :: "string list"
  sub_count :: int
  sub_selection :: int
  sub_active_idx :: int
  sub_codec_ctx :: "'c option"
  sub_pqs :: "PacketQueue list"
  sub_text :: string
  sub_start_pts :: real
  sub_end_pts :: real
  sub_valid :: int
  sub_osd :: string
  sub_osd_until :: real

subsection \<open>The demux thread (\<open>player.c\<close>)\<close>

text \<open>The block \<open>if (ps->seek_request) { \<dots> }\<close> of \<open>demux_thread_func\<close>.  The thread holds
  \<open>seek_mutex\<close> from the first line of the block to \<open>SDL_UnlockMutex\<close>.\<close>

definition demux_seek ::
  "('c, 'r, 'f) avlib \<Rightarrow> ('c, 'r, 'f) PlayerState \<Rightarrow> ('c, 'r, 'f) PlayerState" where
  "demux_seek L ps =
     (let target = seek_target ps;
          ps1 = ps\<lparr>seeking := 1\<rparr>;
          ps2 = (if audio_dev ps1 \<noteq> 0 then ps1\<lparr>dev_paused := True\<rparr> else ps1);
          (ret, f) = av_seek_frame L (fmt_ctx ps2) target (seek_flags ps2);
          ps3 = ps2\<lparr>fmt_ctx := f\<rparr>;
          ps4 = (if ret < 0 then ps3
                 else ps3\<lparr>video_pq := pq_flush (video_pq ps3),
                          audio_pq := pq_flush (audio_pq ps3),
                          video_codec_ctx := map_option (avcodec_flush_buffers L) (video_codec_ctx ps3),
                          audio_codec_ctx := map_option (avcodec_flush_buffers L) (audio_codec_ctx ps3)\<rparr>);
          ps5 = ps4\<lparr>seek_request := 0, eof := 0,
                    audio_buf_size := 0, audio_buf_index := 0,
                    seeking := 0\<rparr>
      in if audio_dev ps5 \<noteq> 0 \<and> paused ps5 = 0 then ps5\<lparr>dev_paused := False\<rparr> else ps5)"

datatype loop_ctl = Continue | Break

text \<open>The rest of one iteration: throttle, read, route.  \<open>node_ok\<close> and \<open>pkt_ok\<close> are the
  outcomes of the allocations of the \<open>pq_put\<close> of this iteration.\<close>

definition demux_read ::
  "('c, 'r, 'f) avlib \<Rightarrow> bool \<times> bool \<Rightarrow> ('c, 'r, 'f) PlayerState
     \<Rightarrow> loop_ctl \<times> ('c, 'r, 'f) PlayerState" where
  "demux_read L alloc ps =
     (if PACKET_QUEUE_MAX <s nb_packets (video_pq ps) \<or> PACKET_QUEUE_MAX <s nb_packets (audio_pq ps)
      then (Continue, ps)
      else (case av_read_frame L (fmt_ctx ps) of
              (ReadEOF, f) \<Rightarrow> (Continue, ps\<lparr>fmt_ctx := f, eof := 1\<rparr>)
            | (ReadError, f) \<Rightarrow> (Break, ps\<lparr>fmt_ctx := f\<rparr>)
            | (ReadPacket pkt, f) \<Rightarrow>
                if stream_index pkt = video_stream_idx ps
                then (Continue, ps\<lparr>fmt_ctx := f,
                                   video_pq := snd (pq_put (video_pq ps) pkt (fst alloc) (snd alloc))\<rparr>)
                else if stream_index pkt = audio_stream_idx ps
                then (Continue, ps\<lparr>fmt_ctx := f,
                                   audio_pq := snd (pq_put (audio_pq ps) pkt (fst alloc) (snd alloc))\<rparr>)
                else (Continue, ps\<lparr>fmt_ctx := f\<rparr>)))"

definition demux_iter ::
  "('c, 'r, 'f) avlib \<Rightarrow> bool \<times> bool \<Rightarrow> ('c, 'r, 'f) PlayerState
     \<Rightarrow> loop_ctl \<times> ('c, 'r, 'f) PlayerState" where
  "demux_iter L alloc ps =
     demux_read L alloc (if seek_request ps \<noteq> 0 then demux_seek L ps else ps)"

text \<open>\<open>while (!ps->quit) \<dots>\<close>: as many iterations as the list has allocation outcomes, fewer
  when \<open>quit\<close> is set or a read fails.\<close>

fun demux_thread_func ::
  "('c, 'r, 'f) avlib \<Rightarrow> (bool \<times> bool) list \<Rightarrow> ('c, 'r, 'f) PlayerState
     \<Rightarrow> ('c, 'r, 'f) PlayerState" where
  "demux_thread_func L [] ps = ps"
| "demux_thread_func L (a # as) ps =
     (if quit ps \<noteq> 0 then ps
      else (case demux_iter L a ps of
              (Continue, ps') \<Rightarrow> demux_thread_func L as ps'
            | (Break, ps') \<Rightarrow> ps'))"

subsection \<open>Video decode and seek (\<open>player.c\<close>)\<close>

text \<open>The \<open>for (;;)\<close> loop of \<open>video_decode_frame\<close>, entered with \<open>seek_mutex\<close> held.\<close>

function video_decode_loop ::
  "('c, 'r, 'f) avlib \<Rightarrow> ('c, 'r, 'f) PlayerState \<Rightarrow> (int \<times> ('c, 'r, 'f) PlayerState) option" where
  "video_decode_loop L ps =
     (case avcodec_receive_frame L (video_codec_ctx ps) of
        (RecvFrame fr, c) \<Rightarrow>
          Some (1, ps\<lparr>video_codec_ctx := c,
                      video_clock :=
                        (if frame_pts fr \<noteq> AV_NOPTS_VALUE
                         then real_of_int (frame_pts fr)
                              * av_q2d (stream_time_base L (fmt_ctx ps) (video_stream_idx ps))
                         else 0)\<rparr>)
      | (RecvError, c) \<Rightarrow> Some (-1, ps\<lparr>video_codec_ctx := c\<rparr>)
      | (RecvAgain, c) \<Rightarrow>
          (case pq_get (video_pq ps) 0 [] of
             None \<Rightarrow> None
           | Some (PqPacket pkt, q) \<Rightarrow>
               video_decode_loop L
                 (ps\<lparr>video_codec_ctx := snd (avcodec_send_packet L c pkt), video_pq := q\<rparr>)
           | Some (r, q) \<Rightarrow> Some (0, ps\<lparr>video_codec_ctx := c, video_pq := q\<rparr>)))"
  by pat_completeness auto
termination
  by (relation "measure (\<lambda>(L, ps). length (nodes (video_pq ps)))")
     (auto simp: pq_get.simps split: if_splits list.splits)

declare video_decode_loop.simps [simp del]

text \<open>\<open>video_decode_frame\<close>; \<open>trylock\<close> is the return value of \<open>SDL_TryLockMutex\<close>.\<close>

definition video_decode_frame ::
  "('c, 'r, 'f) avlib \<Rightarrow> int \<Rightarrow> ('c, 'r, 'f) PlayerState
     \<Rightarrow> (int \<times> ('c, 'r, 'f) PlayerState) option" where
  "video_decode_frame L trylock ps =
     (if seeking ps \<noteq> 0 then Some (0, ps)
      else if trylock \<noteq> 0 then Some (0, ps)
      else video_decode_loop L ps)"

text \<open>\<open>player_seek\<close>; \<open>now\<close> is the value of \<open>get_time_sec()\<close>.\<close>

definition player_seek ::
  "('c, 'r, 'f) PlayerState \<Rightarrow> real \<Rightarrow> real \<Rightarrow> ('c, 'r, 'f) PlayerState" where
  "player_seek ps incr now =
     (if playing ps = 0 then ps
      else let pos = video_clock ps + incr;
               pos' = (if pos < 0 then 0 else pos)
           in ps\<lparr>seek_target := c_trunc (pos' * real_of_int AV_TIME_BASE),
                 seek_flags := (if incr < 0 then AVSEEK_FLAG_BACKWARD else 0),
                 seek_request := 1,
                 frame_timer := now,
                 frame_last_delay := 4 / 100\<rparr>)"

subsection \<open>Audio decode (\<open>audio.c\<close>)\<close>

text \<open>The lazy initialisation of the resampler, \<open>if (!ps->swr_ctx) { \<dots> }\<close>: \<open>False\<close> when the
  function returns -1 there.  \<open>swr_init\<close> is called only when \<open>swr_alloc_set_opts2\<close> did not
  fail.\<close>

definition audio_swr_setup ::
  "('c, 'r, 'f) avlib \<Rightarrow> ('c, 'r, 'f) PlayerState \<Rightarrow> AVFrame
     \<Rightarrow> bool \<times> ('c, 'r, 'f) PlayerState" where
  "audio_swr_setup L ps fr =
     (if swr_ctx ps = None
      then (case swr_alloc_set_opts2 L (audio_spec_freq ps) fr of
              (ret, r) \<Rightarrow>
                if ret < 0 then (False, ps\<lparr>swr_ctx := r\<rparr>)
                else (case swr_init L r of
                        (ret2, r2) \<Rightarrow> (\<not> ret2 < 0, ps\<lparr>swr_ctx := r2\<rparr>)))
      else (True, ps))"

text \<open>\<open>if (!ps->audio_buf || out_size > AUDIO_BUF_SIZE) { \<dots> }\<close>: \<open>False\<close> when \<open>av_malloc\<close>
  returns \<open>NULL\<close>.\<close>

definition audio_buf_grow ::
  "('c, 'r, 'f) avlib \<Rightarrow> ('c, 'r, 'f) PlayerState \<Rightarrow> int \<Rightarrow> bool \<times> ('c, 'r, 'f) PlayerState" where
  "audio_buf_grow L ps out_size =
     (if audio_buf ps = None \<or> out_size > AUDIO_BUF_SIZE
      then (case av_malloc L AUDIO_BUF_SIZE of
              None \<Rightarrow> (False, ps\<lparr>audio_buf := None\<rparr>)
            | Some b \<Rightarrow> (True, ps\<lparr>audio_buf := Some b\<rparr>))
      else (True, ps))"

text \<open>The bytes of a buffer after \<open>bytes\<close> have been written at its start.\<close>

definition write_front :: "8 word list \<Rightarrow> 8 word list option \<Rightarrow> 8 word list" where
  "write_front bytes buf =
     (case buf of None \<Rightarrow> bytes | Some b \<Rightarrow> bytes @ drop (length bytes) b)"

text \<open>The update of the audio clock from the frame's PTS and the samples converted.\<close>

definition audio_clock_set ::
  "('c, 'r, 'f) avlib \<Rightarrow> ('c, 'r, 'f) PlayerState \<Rightarrow> AVFrame \<Rightarrow> int
     \<Rightarrow> ('c, 'r, 'f) PlayerState" where
  "audio_clock_set L ps fr converted =
     (let ps1 = (if frame_pts fr \<noteq> AV_NOPTS_VALUE
                 then ps\<lparr>audio_clock :=
                          real_of_int (frame_pts fr)
                          * av_q2d (stream_time_base L (fmt_ctx ps) (audio_stream_idx ps))\<rparr>
                 else ps)
      in ps1\<lparr>audio_clock :=
               audio_clock ps1 + real_of_int converted / real_of_int (audio_spec_freq ps1)\<rparr>)"

text \<open>The block \<open>if (ret == 0) { \<dots> }\<close> of \<open>audio_decode_frame\<close>: a frame \<open>fr\<close> has been
  received.  Returns the return value of \<open>audio_decode_frame\<close>.\<close>

definition audio_frame_ready ::
  "('c, 'r, 'f) avlib \<Rightarrow> ('c, 'r, 'f) PlayerState \<Rightarrow> AVFrame \<Rightarrow> int \<times> ('c, 'r, 'f) PlayerState" where
  "audio_frame_ready L ps fr =
     (case audio_swr_setup L ps fr of
        (False, ps1) \<Rightarrow> (-1, ps1)
      | (True, ps1) \<Rightarrow>
          (let out_samples = swr_get_out_samples L (swr_ctx ps1) (nb_samples fr);
               out_size = out_samples * 2 * 2
           in case audio_buf_grow L ps1 out_size of
                (False, ps2) \<Rightarrow> (-1, ps2)
              | (True, ps2) \<Rightarrow>
                  (case swr_convert L (swr_ctx ps2) out_samples fr of
                     (converted, bytes, r) \<Rightarrow>
                       (let ps3 = ps2\<lparr>swr_ctx := r,
                                      audio_buf := Some (write_front bytes (audio_buf ps2))\<rparr>
                        in if converted < 0 then (-1, ps3)
                           else (converted * 2 * 2, audio_clock_set L ps3 fr converted)))))"

text \<open>\<open>audio_decode_frame\<close>: the \<open>for (;;)\<close> loop.\<close>

function audio_decode_frame ::
  "('c, 'r, 'f) avlib \<Rightarrow> ('c, 'r, 'f) PlayerState \<Rightarrow> (int \<times> ('c, 'r, 'f) PlayerState) option" where
  "audio_decode_frame L ps =
     (case avcodec_receive_frame L (audio_codec_ctx ps) of
        (RecvFrame fr, c) \<Rightarrow> Some (audio_frame_ready L (ps\<lparr>audio_codec_ctx := c\<rparr>) fr)
      | (RecvError, c) \<Rightarrow> Some (-1, ps\<lparr>audio_codec_ctx := c\<rparr>)
      | (RecvAgain, c) \<Rightarrow>
          (case pq_get (audio_pq ps) 0 [] of
             None \<Rightarrow> None
           | Some (PqPacket pkt, q) \<Rightarrow>
               (case avcodec_send_packet L c pkt of
                  (ret, c') \<Rightarrow>
                    if ret < 0 then Some (-1, ps\<lparr>audio_codec_ctx := c', audio_pq := q\<rparr>)
                    else audio_decode_frame L (ps\<lparr>audio_codec_ctx := c', audio_pq := q\<rparr>))
           | Some (r, q) \<Rightarrow> Some (-1, ps\<lparr>audio_codec_ctx := c, audio_pq := q\<rparr>)))"
  by pat_completeness auto
termination
  by (relation "measure (\<lambda>(L, ps). length (nodes (audio_pq ps)))")
     (auto simp: pq_get.simps split: if_splits list.splits)

declare audio_decode_frame.simps [simp del]



subsection \<open>The SDL audio callback (\<open>audio.c\<close>)\<close>

text \<open>\<open>memset(stream, 0, len)\<close> on a buffer of at least \<open>len\<close> bytes.\<close>

definition memset_zero :: "8 word list \<Rightarrow> int \<Rightarrow> 8 word list" where
  "memset_zero stream len =
     map (\<lambda>b. 0) (take (nat len) stream) @ drop (nat len) stream"

text \<open>The first statement of the loop body, \<open>if (ps->audio_buf_index >= ps->audio_buf_size)
  { \<dots> }\<close>: \<open>True\<close> when the loop is left by \<open>break\<close>.\<close>

definition audio_refill ::
  "('c, 'r, 'f) avlib \<Rightarrow> ('c, 'r, 'f) PlayerState \<Rightarrow> (bool \<times> ('c, 'r, 'f) PlayerState) option" where
  "audio_refill L ps =
     (if audio_buf_index ps \<ge> audio_buf_size ps
      then (case audio_decode_frame L ps of
              None \<Rightarrow> None
            | Some (decoded, ps1) \<Rightarrow>
                if decoded \<le> 0 then Some (True, ps1)
                else Some (False, ps1\<lparr>audio_buf_size := decoded, audio_buf_index := 0\<rparr>))
      else Some (False, ps))"

text \<open>\<open>SDL_MixAudioFormat(stream + written, audio_buf + audio_buf_index, AUDIO_S16SYS,
  to_copy, volume)\<close>: the bytes \<open>written \<dots> written + to_copy - 1\<close> of the stream are replaced
  by the mix, the others are not touched.\<close>

definition mix_into ::
  "('c, 'r, 'f) avlib \<Rightarrow> ('c, 'r, 'f) PlayerState \<Rightarrow> 8 word list \<Rightarrow> int \<Rightarrow> int \<Rightarrow> 8 word list" where
  "mix_into L ps stream written to_copy =
     take (nat written) stream
     @ SDL_MixAudioFormat L
         (take (nat to_copy) (drop (nat written) stream))
         (take (nat to_copy) (drop (nat (audio_buf_index ps)) (case audio_buf ps of None \<Rightarrow> [] | Some b \<Rightarrow> b)))
         (c_trunc (volume ps * real_of_int SDL_MIX_MAXVOLUME))
     @ drop (nat written + nat to_copy) stream"

text \<open>\<open>while (written < len) { \<dots> }\<close>.  Returns the state, the stream and \<open>written\<close>.\<close>

function audio_fill ::
  "('c, 'r, 'f) avlib \<Rightarrow> int \<Rightarrow> ('c, 'r, 'f) PlayerState \<Rightarrow> 8 word list \<Rightarrow> int
     \<Rightarrow> (('c, 'r, 'f) PlayerState \<times> 8 word list \<times> int) option" where
  "audio_fill L len ps stream written =
     (if written < len
      then (case audio_refill L ps of
              None \<Rightarrow> None
            | Some (True, ps1) \<Rightarrow> Some (ps1, stream, written)
            | Some (False, ps1) \<Rightarrow>
                (let remaining = audio_buf_size ps1 - audio_buf_index ps1;
                     to_copy = (if len - written > remaining then remaining else len - written)
                 in audio_fill L len
                      (ps1\<lparr>audio_buf_index := audio_buf_index ps1 + to_copy\<rparr>)
                      (mix_into L ps1 stream written to_copy)
                      (written + to_copy)))
      else Some (ps, stream, written))"
  by pat_completeness auto
termination
  by (relation "measure (\<lambda>(L, len, ps, stream, written). nat (len - written))")
     (auto simp: audio_refill_def split: if_splits option.splits prod.splits)

declare audio_fill.simps [simp del]

definition audio_callback ::
  "('c, 'r, 'f) avlib \<Rightarrow> ('c, 'r, 'f) PlayerState \<Rightarrow> 8 word list \<Rightarrow> int
     \<Rightarrow> (('c, 'r, 'f) PlayerState \<times> 8 word list) option" where
  "audio_callback L ps stream len =
     (let stream0 = memset_zero stream len
      in if paused ps \<noteq> 0 \<or> seek_request ps \<noteq> 0 \<or> seeking ps \<noteq> 0 then Some (ps, stream0)
         else (case audio_fill L len ps stream0 0 of
                 None \<Rightarrow> None
               | Some (ps', out, written) \<Rightarrow> Some (ps', out)))"

subsection \<open>Audio device and audio track cycling (\<open>audio.c\<close>)\<close>

definition audio_open ::
  "('c, 'r, 'f) avlib \<Rightarrow> ('c, 'r, 'f) PlayerState \<Rightarrow> int \<times> ('c, 'r, 'f) PlayerState" where
  "audio_open L ps =
     (case audio_codec_ctx ps of
        None \<Rightarrow> (-1, ps)
      | Some c \<Rightarrow>
          (case SDL_OpenAudioDevice L (codec_sample_rate L c) of
             (dev, freq) \<Rightarrow>
               (let ps1 = ps\<lparr>audio_dev := dev, audio_spec_freq := freq\<rparr>
                in if dev = 0 then (-1, ps1)
                   else (0, ps1\<lparr>audio_buf := av_malloc L AUDIO_BUF_SIZE,
                                audio_buf_size := 0, audio_buf_index := 0,
                                dev_paused := False\<rparr>))))"

definition audio_close :: "('c, 'r, 'f) PlayerState \<Rightarrow> ('c, 'r, 'f) PlayerState" where
  "audio_close ps = (if audio_dev ps \<noteq> 0 then ps\<lparr>audio_dev := 0\<rparr> else ps)"

text \<open>\<open>snprintf(buf, 256, \<dots>)\<close> keeps at most 255 characters.\<close>

definition osd_text :: "string \<Rightarrow> string" where
  "osd_text s = take 255 s"

text \<open>\<open>audio_cycle\<close>; \<open>now\<close> is the value of \<open>get_time_sec()\<close>.\<close>

definition audio_cycle ::
  "('c, 'r, 'f) avlib \<Rightarrow> ('c, 'r, 'f) PlayerState \<Rightarrow> real \<Rightarrow> ('c, 'r, 'f) PlayerState" where
  "audio_cycle L ps now =
     (if aud_count ps \<le> 1
      then ps\<lparr>aud_osd := osd_text (if aud_count ps = 0 then ''No audio tracks''
                                      else ''Only one audio track''),
               aud_osd_until := now + 2\<rparr>
      else
        (let new_sel = c_rem (aud_selection ps + 1) (aud_count ps);
             new_stream_idx = aud_stream_indices ps ! nat new_sel;
             ps1 = (if audio_dev ps \<noteq> 0 then ps\<lparr>dev_paused := True\<rparr> else ps);
             ps2 = ps1\<lparr>audio_pq := pq_flush (audio_pq ps1),
                      audio_codec_ctx := None, swr_ctx := None,
                      audio_buf_size := 0, audio_buf_index := 0\<rparr>
         in if \<not> avcodec_find_decoder L (fmt_ctx ps2) new_stream_idx
            then ps2\<lparr>aud_osd := osd_text ''Audio: codec error'', aud_osd_until := now + 2\<rparr>
            else (case avcodec_open2 L (fmt_ctx ps2) new_stream_idx of
                    (ret, c) \<Rightarrow>
                      if ret < 0
                      then ps2\<lparr>aud_osd := osd_text ''Audio: codec error'', aud_osd_until := now + 2\<rparr>
                      else
                        (let ps3 = ps2\<lparr>audio_codec_ctx := Some c\<rparr>;
                             new_rate = codec_sample_rate L c;
                             ps4 = (if new_rate \<noteq> audio_spec_freq ps3
                                    then snd (audio_open L (audio_close ps3)) else ps3);
                             ps5 = ps4\<lparr>aud_selection := new_sel, audio_stream_idx := new_stream_idx\<rparr>;
                             pos = (if audio_clock ps5 < 1 / 10 then 1 / 10 else audio_clock ps5);
                             ps6 = ps5\<lparr>seek_target := c_trunc (pos * real_of_int AV_TIME_BASE),
                                      seek_flags := AVSEEK_FLAG_BACKWARD,
                                      seek_request := 1\<rparr>;
                             ps7 = (if audio_dev ps6 \<noteq> 0 \<and> paused ps6 = 0
                                    then ps6\<lparr>dev_paused := False\<rparr> else ps6)
                         in ps7\<lparr>aud_osd := osd_text (''Audio: '' @ aud_stream_names ps7 ! nat new_sel),
                                aud_osd_until := now + 2\<rparr>))))"

text \<open>The track key pressed once for each time of the list.\<close>

fun audio_cycle_times ::
  "('c, 'r, 'f) avlib \<Rightarrow> ('c, 'r, 'f) PlayerState \<Rightarrow> real list \<Rightarrow> ('c, 'r, 'f) PlayerState" where
  "audio_cycle_times L ps [] = ps"
| "audio_cycle_times L ps (now # nows) = audio_cycle_times L (audio_cycle L ps now) nows"

subsection \<open>Subtitle codec and track cycling (\<open>subtitle.c\<close>)\<close>

definition sub_close_codec :: "('c, 'r, 'f) PlayerState \<Rightarrow> ('c, 'r, 'f) PlayerState" where
  "sub_close_codec ps =
     ps\<lparr>sub_codec_ctx := None, sub_active_idx := -1, sub_valid := 0, sub_text := []\<rparr>"

definition sub_open_codec ::
  "('c, 'r, 'f) avlib \<Rightarrow> ('c, 'r, 'f) PlayerState \<Rightarrow> int \<Rightarrow> int \<times> ('c, 'r, 'f) PlayerState" where
  "sub_open_codec L ps stream_idx =
     (let ps1 = sub_close_codec ps
      in if stream_idx < 0 then (0, ps1)
         else if \<not> avcodec_find_decoder L (fmt_ctx ps1) stream_idx then (-1, ps1)
         else (case avcodec_open2 L (fmt_ctx ps1) stream_idx of
                 (ret, c) \<Rightarrow>
                   if ret < 0 then (-1, ps1\<lparr>sub_codec_ctx := None\<rparr>)
                   else (0, ps1\<lparr>sub_codec_ctx := Some c, sub_active_idx := stream_idx\<rparr>)))"

text \<open>\<open>sub_cycle\<close>; \<open>now\<close> is the value of \<open>get_time_sec()\<close>.\<close>

definition sub_cycle ::
  "('c, 'r, 'f) avlib \<Rightarrow> ('c, 'r, 'f) PlayerState \<Rightarrow> real \<Rightarrow> ('c, 'r, 'f) PlayerState" where
  "sub_cycle L ps now =
     (if sub_count ps = 0
      then ps\<lparr>sub_osd := osd_text ''No subtitles available'', sub_osd_until := now + 2\<rparr>
      else
        (let ps1 = ps\<lparr>sub_selection := c_rem (sub_selection ps + 1) (sub_count ps + 1)\<rparr>;
             ps2 = (if sub_selection ps1 = 0
                    then (sub_close_codec ps1)\<lparr>sub_osd := osd_text ''Subtitles: Off''\<rparr>
                    else
                      (let sel = sub_selection ps1 - 1;
                           stream_idx = sub_stream_indices ps1 ! nat sel;
                           ps3 = snd (sub_open_codec L ps1 stream_idx)
                       in ps3\<lparr>sub_valid := 0, sub_text := [],
                              sub_osd := osd_text (''Subtitles: '' @ sub_stream_names ps3 ! nat sel)\<rparr>))
         in ps2\<lparr>sub_osd_until := now + 2\<rparr>))"

fun sub_cycle_times ::
  "('c, 'r, 'f) avlib \<Rightarrow> ('c, 'r, 'f) PlayerState \<Rightarrow> real list \<Rightarrow> ('c, 'r, 'f) PlayerState" where
  "sub_cycle_times L ps [] = ps"
| "sub_cycle_times L ps (now # nows) = sub_cycle_times L (sub_cycle L ps now) nows"

subsection \<open>ASS markup (\<open>subtitle.c\<close>)\<close>

text \<open>The first loop of \<open>strip_ass_markup\<close>: the text after the \<open>n\<close>-th comma, \<open>None\<close> when the
  event has fewer commas.\<close>

fun skip_commas :: "nat \<Rightarrow> string \<Rightarrow> string option" where
  "skip_commas 0 p = Some p"
| "skip_commas (Suc n) [] = None"
| "skip_commas (Suc n) (c # p) = skip_commas (if c = CHR '','' then n else Suc n) p"

text \<open>The second loop; \<open>room\<close> is \<open>out_size - 1 - o\<close>.  A block \<open>{\<dots>}\<close> is dropped, \<open>\N\<close> and
  \<open>\n\<close> become a line feed.\<close>

function strip_loop :: "nat \<Rightarrow> string \<Rightarrow> string" where
  "strip_loop room p =
     (case p of
        [] \<Rightarrow> []
      | c # p' \<Rightarrow>
          if room = 0 then []
          else if c = CHR ''{''
          then strip_loop room (case dropWhile (\<lambda>x. x \<noteq> CHR ''}'') p' of [] \<Rightarrow> [] | b # r \<Rightarrow> r)
          else if c = CHR 0x5C \<and> (case p' of [] \<Rightarrow> False | d # r \<Rightarrow> d = CHR ''N'' \<or> d = CHR ''n'')
          then CHR 0x0A # strip_loop (room - 1) (tl p')
          else c # strip_loop (room - 1) p')"
  by pat_completeness auto
termination
proof (relation "measure (\<lambda>(room, p). length p)")
  show "wf (measure (\<lambda>(room, p). length p))"
    by simp
next
  fix room :: nat and p :: string and c p'
  assume "p = c # p'"
  have "length (case dropWhile (\<lambda>x. x \<noteq> CHR ''}'') p' of [] \<Rightarrow> [] | b # r \<Rightarrow> r)
          \<le> length (dropWhile (\<lambda>x. x \<noteq> CHR ''}'') p')"
    by (simp split: list.split)
  also have "\<dots> \<le> length p'"
    by (rule length_dropWhile_le)
  finally show "((room, case dropWhile (\<lambda>x. x \<noteq> CHR ''}'') p' of [] \<Rightarrow> [] | b # r \<Rightarrow> r), room, p)
                  \<in> measure (\<lambda>(room, p). length p)"
    using \<open>p = c # p'\<close> by simp
next
  fix room :: nat and p :: string and c p'
  assume "p = c # p'"
  then show "((room - 1, tl p'), room, p) \<in> measure (\<lambda>(room, p). length p)"
    by (cases p') simp_all
next
  fix room :: nat and p :: string and c p'
  assume "p = c # p'"
  then show "((room - 1, p'), room, p) \<in> measure (\<lambda>(room, p). length p)"
    by simp
qed

declare strip_loop.simps [simp del]

definition is_sub_space :: "char \<Rightarrow> bool" where
  "is_sub_space c \<longleftrightarrow> c = CHR '' '' \<or> c = CHR 0x0A \<or> c = CHR 0x0D"

definition strip_ass_markup :: "string \<Rightarrow> nat \<Rightarrow> string" where
  "strip_ass_markup ass_event out_size =
     (let p = (case skip_commas 8 ass_event of None \<Rightarrow> ass_event | Some s \<Rightarrow> s);
          out = strip_loop (out_size - 1) p;
          out1 = rev (dropWhile is_sub_space (rev out))
      in dropWhile is_sub_space out1)"

subsection \<open>Subtitle cue selection (\<open>subtitle.c\<close>)\<close>

text \<open>The display window of a decoded subtitle: \<open>start\<close> and \<open>end\<close> of \<open>sub_decode_pending\<close>;
  \<open>tb\<close> is the time base of the stream.\<close>

definition sub_timing :: "AVRational \<Rightarrow> AVPacket \<Rightarrow> AVSubtitle \<Rightarrow> real \<times> real" where
  "sub_timing tb pkt sub =
     (let pkt_pts = (if pts pkt \<noteq> AV_NOPTS_VALUE then real_of_int (pts pkt) * av_q2d tb else 0);
          start = pkt_pts + real (start_display_time sub) / 1000;
          end0 = pkt_pts + real (end_display_time sub) / 1000;
          end1 = (if end_display_time sub = 0 \<and> duration pkt > 0
                  then pkt_pts + real_of_int (duration pkt) * av_q2d tb
                  else if end_display_time sub = 0 then start + 3
                  else end0)
      in (start, end1))"

text \<open>One round of the loop over the rects: the local buffer \<open>text\<close> after the rect.\<close>

definition sub_rect_text :: "string \<Rightarrow> AVSubtitleRect \<Rightarrow> string" where
  "sub_rect_text text rect =
     (case (rect_type rect, rect_text rect, rect_ass rect) of
        (SUBTITLE_TEXT, Some t, a) \<Rightarrow> take (SUB_TEXT_SIZE - 1) t
      | (SUBTITLE_ASS, t, Some a) \<Rightarrow> strip_ass_markup a SUB_TEXT_SIZE
      | other \<Rightarrow> text)"

definition sub_extract_text :: "AVSubtitle \<Rightarrow> string" where
  "sub_extract_text sub = foldl sub_rect_text [] (rects sub)"

text \<open>\<open>while (pq_get(spq, &pkt, 0) > 0) { \<dots> }\<close>: the codec, the queue and the subtitle kept
  (text, start, end), if any.\<close>

function sub_scan ::
  "('c, 'r, 'f) avlib \<Rightarrow> AVRational \<Rightarrow> real \<Rightarrow> 'c \<Rightarrow> PacketQueue
     \<Rightarrow> ('c \<times> PacketQueue \<times> (string \<times> real \<times> real) option) option" where
  "sub_scan L tb now c q =
     (case pq_get q 0 [] of
        None \<Rightarrow> None
      | Some (PqPacket pkt, q') \<Rightarrow>
          (case avcodec_decode_subtitle2 L c pkt of
             ((ret, got_sub, sub), c') \<Rightarrow>
               if ret < 0 \<or> got_sub = 0 then sub_scan L tb now c' q'
               else if sub_extract_text sub = [] then sub_scan L tb now c' q'
               else if snd (sub_timing tb pkt sub) < now then sub_scan L tb now c' q'
               else Some (c', q', Some (sub_extract_text sub,
                                        fst (sub_timing tb pkt sub),
                                        snd (sub_timing tb pkt sub))))
      | Some (r, q') \<Rightarrow> Some (c, q', None))"
  by pat_completeness auto
termination
  by (relation "measure (\<lambda>(L, tb, now, c, q). length (nodes q))")
     (auto simp: pq_get.simps split: if_splits list.splits)

declare sub_scan.simps [simp del]

definition sub_now :: "('c, 'r, 'f) PlayerState \<Rightarrow> real" where
  "sub_now ps = (if audio_stream_idx ps < 0 then video_clock ps else audio_clock ps)"

definition sub_decode_pending ::
  "('c, 'r, 'f) avlib \<Rightarrow> ('c, 'r, 'f) PlayerState \<Rightarrow> ('c, 'r, 'f) PlayerState option" where
  "sub_decode_pending L ps =
     (case sub_codec_ctx ps of
        None \<Rightarrow> Some ps
      | Some c \<Rightarrow>
          if sub_active_idx ps < 0 then Some ps
          else if sub_selection ps \<le> 0 \<or> sub_selection ps > sub_count ps then Some ps
          else
            (let queue_idx = sub_selection ps - 1;
                 spq = sub_pqs ps ! nat queue_idx;
                 now = sub_now ps
             in if sub_valid ps \<noteq> 0 \<and> now \<le> sub_end_pts ps then Some ps
                else (case sub_scan L (stream_time_base L (fmt_ctx ps) (sub_active_idx ps)) now c spq of
                        None \<Rightarrow> None
                      | Some (c', q', kept) \<Rightarrow>
                          (let ps1 = ps\<lparr>sub_valid := 0, sub_codec_ctx := Some c',
                                         sub_pqs := (sub_pqs ps)[nat queue_idx := q']\<rparr>
                           in Some (case kept of
                                      None \<Rightarrow> ps1
                                    | Some (text, start, end1) \<Rightarrow>
                                        ps1\<lparr>sub_text := take (SUB_TEXT_SIZE - 1) text,
                                            sub_start_pts := start,
                                            sub_end_pts := end1,
                                            sub_valid := 1\<rparr>)))))"

subsection \<open>The render tick (\<open>main.c\<close>)\<close>

text \<open>The block \<open>if (vret > 0) { \<dots> }\<close> of the main loop up to \<open>video_display\<close>: the state and
  the argument of \<open>SDL_Delay\<close> in milliseconds (\<open>None\<close> when \<open>SDL_Delay\<close> is not called);
  \<open>now\<close> is the value of \<open>get_time_sec()\<close> taken before the decode.\<close>

definition video_sync ::
  "('c, 'r, 'f) PlayerState \<Rightarrow> real \<Rightarrow> ('c, 'r, 'f) PlayerState \<times> int option" where
  "video_sync ps now =
     (let pts_delay0 = video_clock ps - frame_last_pts ps;
          pts_delay = (if pts_delay0 \<le> 0 \<or> pts_delay0 \<ge> 1 then frame_last_delay ps else pts_delay0);
          ps1 = ps\<lparr>frame_last_pts := video_clock ps, frame_last_delay := pts_delay\<rparr>;
          delay = (if audio_stream_idx ps1 \<ge> 0
                   then (let diff = video_clock ps1 - audio_clock ps1;
                             threshold = max pts_delay (1 / 100)
                         in if diff > threshold then pts_delay + diff
                            else if diff < - threshold then 0
                            else pts_delay)
                   else pts_delay);
          ps2 = ps1\<lparr>frame_timer := frame_timer ps1 + delay\<rparr>;
          actual_delay = frame_timer ps2 - now
      in (ps2, if actual_delay > 0 \<and> actual_delay < 1
               then Some (c_trunc (actual_delay * 1000)) else None))"

text \<open>The time slept before the frame is presented, in milliseconds.\<close>

definition sleep_ms :: "int option \<Rightarrow> int" where
  "sleep_ms d = (case d of None \<Rightarrow> 0 | Some ms \<Rightarrow> ms)"

datatype tick_result = Presented "int option" | DecodeError | PlaybackFinished | NoFrame

text \<open>The branch \<open>if (ps.playing && !ps.paused)\<close> of the main loop.  On \<open>PlaybackFinished\<close> the
  loop goes on to \<open>player_close\<close>, which ends the session.\<close>

definition render_tick ::
  "('c, 'r, 'f) avlib \<Rightarrow> int \<Rightarrow> real \<Rightarrow> ('c, 'r, 'f) PlayerState
     \<Rightarrow> (tick_result \<times> ('c, 'r, 'f) PlayerState) option" where
  "render_tick L trylock now ps =
     (case sub_decode_pending L ps of
        None \<Rightarrow> None
      | Some ps1 \<Rightarrow>
          (case video_decode_frame L trylock ps1 of
             None \<Rightarrow> None
           | Some (vret, ps2) \<Rightarrow>
               if vret > 0 then (case video_sync ps2 now of (ps3, d) \<Rightarrow> Some (Presented d, ps3))
               else if vret < 0 then Some (DecodeError, ps2)
               else if eof ps2 \<noteq> 0 \<and> nb_packets (video_pq ps2) = 0 \<and> nb_packets (audio_pq ps2) = 0
               then Some (PlaybackFinished, ps2)
               else Some (NoFrame, ps2)))"

text \<open>The space key.\<close>

definition toggle_pause :: "('c, 'r, 'f) PlayerState \<Rightarrow> real \<Rightarrow> ('c, 'r, 'f) PlayerState" where
  "toggle_pause ps now =
     (if playing ps = 0 then ps
      else (let ps1 = ps\<lparr>paused := (if paused ps = 0 then 1 else 0)\<rparr>;
                ps2 = (if audio_dev ps1 \<noteq> 0 then ps1\<lparr>dev_paused := (paused ps1 \<noteq> 0)\<rparr> else ps1)
            in if paused ps2 = 0 then ps2\<lparr>frame_timer := now\<rparr> else ps2))"

subsection \<open>A playback session\<close>

text \<open>What the three threads do between \<open>player_open\<close> and \<open>player_close\<close>, one call at a
  time: an iteration of the demux loop, a call of the audio callback, a main-loop tick
  (playing or paused) and the keys of the main loop.\<close>

datatype event =
    EvDemux "bool \<times> bool"
  | EvAudioCallback "8 word list" int
  | EvRenderTick int real
  | EvPausedTick
  | EvSubCycle real
  | EvAudioCycle real
  | EvSeek real real
  | EvPause real

fun session_step ::
  "('c, 'r, 'f) avlib \<Rightarrow> event \<Rightarrow> ('c, 'r, 'f) PlayerState \<Rightarrow> ('c, 'r, 'f) PlayerState option" where
  "session_step L (EvDemux alloc) ps = Some (snd (demux_iter L alloc ps))"
| "session_step L (EvAudioCallback stream len) ps = map_option fst (audio_callback L ps stream len)"
| "session_step L (EvRenderTick trylock now) ps = map_option snd (render_tick L trylock now ps)"
| "session_step L EvPausedTick ps = sub_decode_pending L ps"
| "session_step L (EvSubCycle now) ps = Some (sub_cycle L ps now)"
| "session_step L (EvAudioCycle now) ps = Some (audio_cycle L ps now)"
| "session_step L (EvSeek incr now) ps = Some (player_seek ps incr now)"
| "session_step L (EvPause now) ps = Some (toggle_pause ps now)"

fun session_run ::
  "('c, 'r, 'f) avlib \<Rightarrow> event list \<Rightarrow> ('c, 'r, 'f) PlayerState \<Rightarrow> ('c, 'r, 'f) PlayerState option" where
  "session_run L [] ps = Some ps"
| "session_run L (e # es) ps =
     (case session_step L e ps of None \<Rightarrow> None | Some ps' \<Rightarrow> session_run L es ps')"

subsection \<open>The fields a thread does not write\<close>

text \<open>A state with the fields written by the audio callback, by the video decode and sync
  of the render tick, and by the subtitle decode blanked: two states that agree outside
  these fields have the same image.\<close>

definition outside_audio :: "('c, 'r, 'f) PlayerState \<Rightarrow> ('c, 'r, 'f) PlayerState" where
  "outside_audio ps =
     ps\<lparr>audio_codec_ctx := None, audio_pq := pq_init, swr_ctx := None, audio_buf := None,
        audio_clock := 0, audio_buf_size := 0, audio_buf_index := 0\<rparr>"

definition outside_video :: "('c, 'r, 'f) PlayerState \<Rightarrow> ('c, 'r, 'f) PlayerState" where
  "outside_video ps =
     ps\<lparr>video_codec_ctx := None, video_pq := pq_init, video_clock := 0,
        frame_last_pts := 0, frame_last_delay := 0, frame_timer := 0\<rparr>"

definition outside_sub :: "('c, 'r, 'f) PlayerState \<Rightarrow> ('c, 'r, 'f) PlayerState" where
  "outside_sub ps =
     ps\<lparr>sub_codec_ctx := None, sub_pqs := [], sub_text := [],
        sub_start_pts := 0, sub_end_pts := 0, sub_valid := 0\<rparr>"

subsection \<open>The specification's words\<close>

text \<open>The frame delay, the audio correction and the sleep as the specification words them:
  \<open>pts_delay = new_pts - last_pts\<close>, replaced by \<open>last_delay\<close> when non-positive or at least
  1 s; with \<open>diff = video_pts - audio_pts\<close>, the delay lengthened by \<open>diff\<close> above
  \<open>max(pts_delay, 10 ms)\<close>, collapsed to zero below the negated threshold; the sleep clamped
  to [0, 1) s, which in the whole milliseconds of \<open>SDL_Delay\<close> is 0 \<dots> 999.\<close>

definition spec_pts_delay :: "real \<Rightarrow> real \<Rightarrow> real \<Rightarrow> real" where
  "spec_pts_delay new_pts last_pts last_delay =
     (if new_pts - last_pts \<le> 0 \<or> 1 \<le> new_pts - last_pts then last_delay
      else new_pts - last_pts)"

definition spec_sync_delay :: "real \<Rightarrow> real \<Rightarrow> real \<Rightarrow> real" where
  "spec_sync_delay pts_delay video_pts audio_pts =
     (if video_pts - audio_pts > max pts_delay (1 / 100) then pts_delay + (video_pts - audio_pts)
      else if video_pts - audio_pts < - max pts_delay (1 / 100) then 0
      else pts_delay)"

definition spec_clamp_sleep_ms :: "real \<Rightarrow> int" where
  "spec_clamp_sleep_ms x = max 0 (min 999 (c_trunc (x * 1000)))"

text \<open>The candidates of the subtitle engine: the packets of the queue decoded in order (the
  codec is threaded through), each with its text and display window, \<open>None\<close> for a packet
  that does not decode to a subtitle.\<close>

fun sub_candidates ::
  "('c, 'r, 'f) avlib \<Rightarrow> AVRational \<Rightarrow> 'c \<Rightarrow> AVPacket list \<Rightarrow> (string \<times> real \<times> real) option list" where
  "sub_candidates L tb c [] = []"
| "sub_candidates L tb c (pkt # pkts) =
     (case avcodec_decode_subtitle2 L c pkt of
        ((ret, got_sub, sub), c') \<Rightarrow>
          (if ret < 0 \<or> got_sub = 0 then None
           else Some (sub_extract_text sub, fst (sub_timing tb pkt sub), snd (sub_timing tb pkt sub)))
          # sub_candidates L tb c' pkts)"

text \<open>A candidate is expired when its end is before \<open>now\<close>.  The specification keeps the first
  candidate that is not expired; the code keeps the first that is not expired and has
  text.\<close>

definition spec_sub_keep :: "real \<Rightarrow> (string \<times> real \<times> real) option \<Rightarrow> bool" where
  "spec_sub_keep now x = (case x of None \<Rightarrow> False | Some (t, s, e) \<Rightarrow> \<not> e < now)"

definition sub_keep :: "real \<Rightarrow> (string \<times> real \<times> real) option \<Rightarrow> bool" where
  "sub_keep now x = (case x of None \<Rightarrow> False | Some (t, s, e) \<Rightarrow> t \<noteq> [] \<and> \<not> e < now)"

definition first_kept ::
  "((string \<times> real \<times> real) option \<Rightarrow> bool) \<Rightarrow> (string \<times> real \<times> real) option list
     \<Rightarrow> (string \<times> real \<times> real) option" where
  "first_kept keep cands = (case dropWhile (\<lambda>x. \<not> keep x) cands of [] \<Rightarrow> None | x # xs \<Rightarrow> x)"

section \<open>Concrete inputs\<close>

text \<open>Packets, library behaviours and player states on which the theorems below are
  evaluated.\<close>

definition pkt_a :: AVPacket where
  "pkt_a = \<lparr>stream_index = 0, pts = 0, duration = 40, size_pkt = 1500\<rparr>"

definition pkt_b :: AVPacket where
  "pkt_b = \<lparr>stream_index = 1, pts = 40, duration = 40, size_pkt = 700\<rparr>"

definition lib0 :: "(int list, nat, nat) avlib" where
  "lib0 =
     \<lparr>avcodec_receive_frame =
        (\<lambda>c. case c of
                None \<Rightarrow> (RecvError, None)
              | Some [] \<Rightarrow> (RecvAgain, c)
              | Some (p # ps) \<Rightarrow> (RecvFrame \<lparr>frame_pts = p, nb_samples = 2\<rparr>, Some ps)),
      avcodec_send_packet =
        (\<lambda>c pkt. case c of None \<Rightarrow> (-22, None) | Some ps \<Rightarrow> (0, Some (ps @ [pts pkt]))),
      avcodec_flush_buffers = (\<lambda>c. []),
      avcodec_decode_subtitle2 =
        (\<lambda>c pkt. ((0, 1, \<lparr>start_display_time = 0, end_display_time = 0,
                            rects = (if duration pkt = 0 then []
                                     else [\<lparr>rect_type = SUBTITLE_TEXT, rect_text = Some ''Hi'',
                                            rect_ass = None\<rparr>])\<rparr>), c)),
      avcodec_find_decoder = (\<lambda>f i. i \<noteq> 9),
      avcodec_open2 = (\<lambda>f i. (0, [])),
      codec_sample_rate = (\<lambda>c. 48000),
      stream_time_base = (\<lambda>f i. \<lparr>num = 1, den = 1000\<rparr>),
      av_seek_frame = (\<lambda>f target flags. if target < 0 then (-1, f) else (0, nat (target div 40000))),
      av_read_frame =
        (\<lambda>f. if f < 4
              then (ReadPacket \<lparr>stream_index = int (f mod 3), pts = 40 * int f, duration = 40,
                                size_pkt = 100\<rparr>, Suc f)
              else (ReadEOF, f)),
      swr_alloc_set_opts2 = (\<lambda>freq fr. (0, Some 0)),
      swr_init = (\<lambda>r. (0, r)),
      swr_get_out_samples = (\<lambda>r n. n),
      swr_convert = (\<lambda>r n fr. (nb_samples fr, replicate (nat (4 * nb_samples fr)) 1, r)),
      av_malloc = (\<lambda>n. Some (replicate 16 0)),
      SDL_OpenAudioDevice = (\<lambda>freq. (2, freq)),
      SDL_MixAudioFormat = (\<lambda>dst src vol. take (length dst) (src @ dst))\<rparr>"

definition ps0 :: "(int list, nat, nat) PlayerState" where
  "ps0 =
     \<lparr>fmt_ctx = 0, video_stream_idx = 0, audio_stream_idx = 1,
      video_codec_ctx = Some [], audio_codec_ctx = Some [], swr_ctx = None,
      audio_buf = None, audio_buf_size = 0, audio_buf_index = 0,
      video_pq = pq_init, audio_pq = pq_init,
      aud_stream_indices = [1, 2], aud_stream_names = [''eng'', ''fra''],
      aud_count = 2, aud_selection = 0, aud_osd = [], aud_osd_until = 0,
      audio_dev = 2, audio_spec_freq = 48000, dev_paused = False,
      audio_clock = 0, video_clock = 0, frame_timer = 0,
      frame_last_delay = 4 / 100, frame_last_pts = 0,
      seek_target = 0, seek_request = 0, seek_flags = 0, seeking = 0,
      playing = 1, paused = 0, quit = 0, volume = 3 / 4, eof = 0,
      sub_stream_indices = [3, 4], sub_stream_names = [''English'', ''French''],
      sub_count = 2, sub_selection = 0, sub_active_idx = -1, sub_codec_ctx = None,
      sub_pqs = replicate 16 pq_init,
      sub_text = [], sub_start_pts = 0, sub_end_pts = 0, sub_valid = 0,
      sub_osd = [], sub_osd_until = 0\<rparr>"

definition ps_seek_paused :: "(int list, nat, nat) PlayerState" where
  "ps_seek_paused =
     ps0\<lparr>paused := 1, dev_paused := True, seek_request := 1, seek_target := 80000,
         video_pq := \<lparr>nodes = [pkt_a], nb_packets = 1, size_pq = 1500, abort_request = 0\<rparr>,
         audio_buf_size := 8, audio_buf_index := 4, eof := 1,
         sub_selection := 1, sub_active_idx := 3, sub_codec_ctx := Some [7],
         sub_pqs := \<lparr>nodes = [pkt_b], nb_packets = 1, size_pq = 700, abort_request = 0\<rparr>
                    # replicate 15 pq_init\<rparr>"

definition ps_seek_fail :: "(int list, nat, nat) PlayerState" where
  "ps_seek_fail =
     ps0\<lparr>seek_request := 1, seek_target := -1,
         video_pq := \<lparr>nodes = [pkt_a], nb_packets = 1, size_pq = 1500, abort_request = 0\<rparr>,
         video_clock := 2, audio_clock := 2, eof := 1\<rparr>"

definition ps_sub_on :: "(int list, nat, nat) PlayerState" where
  "ps_sub_on = ps0\<lparr>fmt_ctx := 2, sub_selection := 1, sub_active_idx := 3, sub_codec_ctx := Some []\<rparr>"

definition ps_in_sync :: "(int list, nat, nat) PlayerState" where
  "ps_in_sync =
     ps0\<lparr>video_clock := 5, frame_last_pts := 124 / 25, audio_clock := 5,
         frame_timer := 100\<rparr>"

definition ps_video_ahead :: "(int list, nat, nat) PlayerState" where
  "ps_video_ahead =
     ps0\<lparr>video_clock := 5, frame_last_pts := 124 / 25, audio_clock := 2,
         frame_timer := 100\<rparr>"

definition pkt_audio :: AVPacket where
  "pkt_audio = \<lparr>stream_index = 1, pts = 1000, duration = 21, size_pkt = 400\<rparr>"

definition ps_audio :: "(int list, nat, nat) PlayerState" where
  "ps_audio = ps0\<lparr>audio_pq := \<lparr>nodes = [pkt_audio], nb_packets = 1, size_pq = 400, abort_request = 0\<rparr>\<rparr>"

definition ps_audio_decoded :: "(int list, nat, nat) PlayerState" where
  "ps_audio_decoded =
     ps0\<lparr>audio_codec_ctx := Some [],
         audio_pq := \<lparr>nodes = [], nb_packets = 0, size_pq = 0, abort_request = 0\<rparr>,
         swr_ctx := Some 0,
         audio_buf := Some [1, 1, 1, 1, 1, 1, 1, 1, 0, 0, 0, 0, 0, 0, 0, 0],
         audio_clock := 24001 / 24000\<rparr>"

definition ps_audio_played :: "(int list, nat, nat) PlayerState" where
  "ps_audio_played = ps_audio_decoded\<lparr>audio_buf_size := 8, audio_buf_index := 8\<rparr>"

definition ps_no_decoder :: "(int list, nat, nat) PlayerState" where
  "ps_no_decoder = ps0\<lparr>aud_stream_indices := [1, 9]\<rparr>"

definition pkt_sub_old :: AVPacket where
  "pkt_sub_old = \<lparr>stream_index = 3, pts = 0, duration = 500, size_pkt = 12\<rparr>"

definition pkt_sub_empty :: AVPacket where
  "pkt_sub_empty = \<lparr>stream_index = 3, pts = 1000, duration = 0, size_pkt = 10\<rparr>"

definition pkt_sub_hi :: AVPacket where
  "pkt_sub_hi = \<lparr>stream_index = 3, pts = 2000, duration = 500, size_pkt = 12\<rparr>"

definition pkt_sub_next :: AVPacket where
  "pkt_sub_next = \<lparr>stream_index = 3, pts = 3000, duration = 500, size_pkt = 12\<rparr>"

definition ps_sub_queued :: "(int list, nat, nat) PlayerState" where
  "ps_sub_queued =
     ps0\<lparr>sub_selection := 1, sub_active_idx := 3, sub_codec_ctx := Some [], audio_clock := 1,
         sub_pqs := \<lparr>nodes = [pkt_sub_old, pkt_sub_empty, pkt_sub_hi, pkt_sub_next],
                     nb_packets = 4, size_pq = 46, abort_request = 0\<rparr>
                    # replicate 15 pq_init\<rparr>"

definition ps_sub_shown :: "(int list, nat, nat) PlayerState" where
  "ps_sub_shown =
     ps_sub_queued\<lparr>sub_valid := 1, sub_text := ''Hi'', sub_start_pts := 2, sub_end_pts := 5 / 2,
         sub_pqs := \<lparr>nodes = [pkt_sub_next], nb_packets = 1, size_pq = 12, abort_request = 0\<rparr>
                    # replicate 15 pq_init\<rparr>"

definition pkt_big :: AVPacket where
  "pkt_big = \<lparr>stream_index = 0, pts = 0, duration = 0, size_pkt = 1073741824\<rparr>"

definition ps_four_tracks :: "(int list, nat, nat) PlayerState" where
  "ps_four_tracks =
     ps0\<lparr>aud_stream_indices := [1, 2, 3, 9],
         aud_stream_names := [''eng'', ''fra'', ''deu'', ''und''], aud_count := 4\<rparr>"

section \<open>Theorems\<close>

subsection \<open>The packet queue\<close>

lemma pq_counted_init: "pq_counted pq_init"
  by (simp add: pq_counted_def pq_init_def)

lemma pq_counted_put: "pq_counted q \<Longrightarrow> pq_counted (snd (pq_put q pkt a b))"
  by (simp add: pq_counted_def pq_put_def)

lemma pq_counted_wake: "pq_counted q \<Longrightarrow> pq_counted (wake_apply w q)"
  by (cases w) (simp_all add: pq_counted_put, simp add: pq_counted_def)

lemma pq_counted_flush: "pq_counted (pq_flush q)"
  by (simp add: pq_counted_def pq_flush_def)

lemma pq_get_wait:
  "abort_request q = 0 \<Longrightarrow> nodes q = [] \<Longrightarrow> block \<noteq> 0
     \<Longrightarrow> pq_get q block (w # ws) = pq_get (wake_apply w q) block ws"
  by (simp add: pq_get.simps [of q block "w # ws"])

lemma pq_get_now:
  "\<not> (abort_request q = 0 \<and> nodes q = [] \<and> block \<noteq> 0)
     \<Longrightarrow> pq_get q block ws = pq_get q block []"
  by (auto simp: pq_get.simps [of q block ws] pq_get.simps [of q block "[]"] split: list.splits)

lemma pq_counted_get:
  "pq_counted q \<Longrightarrow> pq_get q block ws = Some (r, q') \<Longrightarrow> pq_counted q'"
proof (induction ws arbitrary: q)
  case Nil
  then show ?case
    by (auto simp: pq_get.simps [of q block "[]"] pq_counted_def split: if_splits list.splits)
next
  case (Cons w ws)
  show ?case
  proof (cases "abort_request q = 0 \<and> nodes q = [] \<and> block \<noteq> 0")
    case True
    with Cons.prems(2) have "pq_get (wake_apply w q) block ws = Some (r, q')"
      by (simp add: pq_get_wait)
    with Cons.IH [OF pq_counted_wake [OF Cons.prems(1)]] show ?thesis .
  next
    case False
    with Cons.prems show ?thesis
      by (auto simp: pq_get.simps [of q block "w # ws"] pq_counted_def split: if_splits list.splits)
  qed
qed

lemma pq_counted_apply: "pq_counted q \<Longrightarrow> pq_apply x q = Some q' \<Longrightarrow> pq_counted q'"
  by (cases x) (auto simp: pq_counted_put pq_counted_flush split: option.splits dest: pq_counted_get)

lemma pq_counted_run: "pq_counted q \<Longrightarrow> pq_run xs q = Some q' \<Longrightarrow> pq_counted q'"
  by (induction xs arbitrary: q) (auto split: option.splits dest: pq_counted_apply)

lemma sum_list_word_of_int:
  "sum_list (map f xs) = (word_of_int (sum_list (map (\<lambda>x. sint (f x)) xs)) :: 32 word)"
  by (induction xs) simp_all

lemma sint_word_of_int_32:
  "- (2 ^ 31) \<le> k \<Longrightarrow> k < 2 ^ 31 \<Longrightarrow> sint (word_of_int k :: 32 word) = k"
  by (simp add: sint_sbintrunc' signed_take_bit_int_eq_self)

lemma sint_count:
  "n < 2 ^ 31 \<Longrightarrow> sint (of_nat n :: 32 word) = int n"
  using sint_word_of_int_32 [of "int n"] by simp

text \<open>
  C4 (amended).  After every sequence of pushes, pops and flushes on a freshly initialised
  queue (and so at every point between two operations of a longer sequence:
  \<open>take n ops\<close>), the stored count is the number of nodes and the stored size is the sum of
  the sizes of the packets in the queue, as 32-bit \<open>int\<close>s, that is modulo \<open>2 ^ 32\<close>; the
  values read as integers are the number and the sum whenever these fit an \<open>int\<close>.  A
  flush leaves no node and both counters 0.
\<close>

theorem pq_counters_invariant:
  assumes "pq_run (take n ops) pq_init = Some q"
  shows "nb_packets q = of_nat (length (nodes q))
       \<and> size_pq q = sum_list (map size_pkt (nodes q))
       \<and> (length (nodes q) < 2 ^ 31 \<longrightarrow> sint (nb_packets q) = int (length (nodes q)))
       \<and> (- (2 ^ 31) \<le> (\<Sum>p\<leftarrow>nodes q. sint (size_pkt p)) \<and> (\<Sum>p\<leftarrow>nodes q. sint (size_pkt p)) < 2 ^ 31
            \<longrightarrow> sint (size_pq q) = (\<Sum>p\<leftarrow>nodes q. sint (size_pkt p)))
       \<and> nodes (pq_flush q) = [] \<and> nb_packets (pq_flush q) = 0 \<and> size_pq (pq_flush q) = 0"
proof -
  have c: "pq_counted q"
    using pq_counted_run [OF pq_counted_init assms] .
  have n: "nb_packets q = of_nat (length (nodes q))"
    and s: "size_pq q = sum_list (map size_pkt (nodes q))"
    using c by (simp_all add: pq_counted_def)
  have s': "size_pq q = word_of_int (\<Sum>p\<leftarrow>nodes q. sint (size_pkt p))"
    using s sum_list_word_of_int [of size_pkt "nodes q"] by simp
  have n': "length (nodes q) < 2 ^ 31 \<longrightarrow> sint (nb_packets q) = int (length (nodes q))"
    by (simp add: n sint_count)
  have s'': "- (2 ^ 31) \<le> (\<Sum>p\<leftarrow>nodes q. sint (size_pkt p)) \<and> (\<Sum>p\<leftarrow>nodes q. sint (size_pkt p)) < 2 ^ 31
            \<longrightarrow> sint (size_pq q) = (\<Sum>p\<leftarrow>nodes q. sint (size_pkt p))"
    unfolding s' by (intro impI sint_word_of_int_32) simp_all
  have f: "nodes (pq_flush q) = [] \<and> nb_packets (pq_flush q) = 0 \<and> size_pq (pq_flush q) = 0"
    by (simp add: pq_flush_def)
  from n s n' s'' f show ?thesis by blast
qed

theorem pq_counters_invariant_witness:
  "pq_run (take 3 [Push pkt_a True True, Push pkt_b True True, Pop 0 [], Flush]) pq_init
     = Some \<lparr>nodes = [pkt_b], nb_packets = 1, size_pq = 700, abort_request = 0\<rparr>
   \<and> sint (nb_packets \<lparr>nodes = [pkt_b], nb_packets = 1, size_pq = 700, abort_request = 0\<rparr>) = 1
   \<and> sint (size_pq \<lparr>nodes = [pkt_b], nb_packets = 1, size_pq = 700, abort_request = 0\<rparr>) = 700"
proof -
  have r: "pq_run (take 3 [Push pkt_a True True, Push pkt_b True True, Pop 0 [], Flush]) pq_init
     = Some \<lparr>nodes = [pkt_b], nb_packets = 1, size_pq = 700, abort_request = 0\<rparr>"
    by (simp add: pq_init_def pq_put_def pq_get.simps pkt_a_def pkt_b_def)
  show ?thesis
    using pq_counters_invariant [OF r] r by (simp add: pkt_b_def)
qed

text \<open>
  C4 as stated equates the stored size with the sum of the sizes for every sequence.
  \<open>pq_put\<close> adds the size of the packet to an \<open>int\<close> without a bound: after two packets
  of \<open>2 ^ 30\<close> bytes the queue holds \<open>2 ^ 31\<close> bytes and the stored size reads \<open>- 2 ^ 31\<close>.
\<close>

theorem pq_size_overflow_counterexample:
  "pq_run [Push pkt_big True True, Push pkt_big True True] pq_init
     = Some \<lparr>nodes = [pkt_big, pkt_big], nb_packets = 2, size_pq = 2147483648, abort_request = 0\<rparr>
   \<and> sint (size_pkt pkt_big) = 1073741824
   \<and> sint (size_pkt pkt_big) + sint (size_pkt pkt_big) = 2147483648
   \<and> sint (size_pq \<lparr>nodes = [pkt_big, pkt_big], nb_packets = 2, size_pq = 2147483648,
                    abort_request = 0\<rparr>) = - 2147483648"
  by (simp add: pq_init_def pq_put_def pkt_big_def)

lemma pq_get_nonblocking: "\<exists>r q'. pq_get q 0 ws = Some (r, q')"
  by (auto simp: pq_get.simps [of q 0 ws] split: list.splits)

lemma pq_get_blocking_returns:
  "(\<exists>w \<in> set ws. w \<noteq> WakeSpurious) \<Longrightarrow> \<exists>r q'. pq_get q block ws = Some (r, q')"
proof (induction ws arbitrary: q)
  case Nil
  then show ?case by simp
next
  case (Cons w ws)
  show ?case
  proof (cases "abort_request q = 0 \<and> nodes q = [] \<and> block \<noteq> 0")
    case False
    then show ?thesis
      by (auto simp: pq_get.simps [of q block "w # ws"] split: list.splits)
  next
    case True
    show ?thesis
    proof (cases w)
      case WakeSpurious
      with Cons.prems have "\<exists>w \<in> set ws. w \<noteq> WakeSpurious" by auto
      from Cons.IH [OF this] True show ?thesis by (simp add: pq_get_wait)
    next
      case (WakePut p)
      with True show ?thesis
        by (simp add: pq_get_wait pq_put_def pq_get.simps [of _ block ws])
    next
      case WakeAbort
      with True show ?thesis
        by (simp add: pq_get_wait pq_get.simps [of _ block ws])
    qed
  qed
qed

lemma pq_get_woken:
  assumes "pq_get q block ws = Some (r, q')"
  shows "\<exists>k. k \<le> length ws
           \<and> (\<forall>j<k. nodes (fold wake_apply (take j ws) q) = []
                     \<and> abort_request (fold wake_apply (take j ws) q) = 0)
           \<and> (block = 0 \<longrightarrow> k = 0)
           \<and> pq_get (fold wake_apply (take k ws) q) block [] = Some (r, q')"
  using assms
proof (induction ws arbitrary: q)
  case Nil
  then show ?case by simp
next
  case (Cons w ws)
  show ?case
  proof (cases "abort_request q = 0 \<and> nodes q = [] \<and> block \<noteq> 0")
    case True
    with Cons.prems have "pq_get (wake_apply w q) block ws = Some (r, q')"
      by (simp add: pq_get_wait)
    from Cons.IH [OF this] obtain k where k: "k \<le> length ws"
      "\<forall>j<k. nodes (fold wake_apply (take j ws) (wake_apply w q)) = []
             \<and> abort_request (fold wake_apply (take j ws) (wake_apply w q)) = 0"
      "pq_get (fold wake_apply (take k ws) (wake_apply w q)) block [] = Some (r, q')"
      by blast
    have "\<forall>j<Suc k. nodes (fold wake_apply (take j (w # ws)) q) = []
                     \<and> abort_request (fold wake_apply (take j (w # ws)) q) = 0"
    proof (intro allI impI)
      fix j assume "j < Suc k"
      then show "nodes (fold wake_apply (take j (w # ws)) q) = []
                     \<and> abort_request (fold wake_apply (take j (w # ws)) q) = 0"
        using True k(2) by (cases j) simp_all
    qed
    with k(1,3) True show ?thesis
      by (intro exI [of _ "Suc k"]) simp
  next
    case False
    with Cons.prems have "pq_get q block [] = Some (r, q')"
      using pq_get_now [of q block "w # ws"] by simp
    then show ?thesis
      by (intro exI [of _ 0]) simp
  qed
qed

lemma pq_get_at_once:
  "(abort_request q \<noteq> 0 \<longrightarrow> pq_get q block ws = Some (PqAborted, q))
   \<and> (abort_request q = 0 \<longrightarrow>
        (\<forall>node rest. nodes q = node # rest \<longrightarrow>
           pq_get q block ws = Some (PqPacket node,
              q\<lparr>nodes := rest, nb_packets := nb_packets q - 1,
                size_pq := size_pq q - size_pkt node\<rparr>)))
   \<and> (abort_request q = 0 \<and> nodes q = [] \<and> block = 0 \<longrightarrow> pq_get q block ws = Some (PqEmpty, q))
   \<and> (abort_request q = 0 \<and> nodes q = [] \<and> block \<noteq> 0 \<longrightarrow> pq_get q block [] = None)"
  by (auto simp: pq_get.simps [of q block ws] pq_get.simps [of q block "[]"]
      pq_get.simps [of q 0 ws])

lemma pq_get_result_of:
  assumes "pq_get q block ws = Some (r, q')"
  shows "\<exists>k q0. k \<le> length ws \<and> q0 = fold wake_apply (take k ws) q
           \<and> (\<forall>j<k. nodes (fold wake_apply (take j ws) q) = []
                     \<and> abort_request (fold wake_apply (take j ws) q) = 0)
           \<and> (block = 0 \<longrightarrow> k = 0)
           \<and> (pq_ret r = 1 \<or> pq_ret r = 0 \<or> pq_ret r = -1)
           \<and> (pq_ret r = 1) = (abort_request q0 = 0 \<and> nodes q0 \<noteq> [])
           \<and> (pq_ret r = 1 \<longrightarrow>
                (\<exists>node rest. nodes q0 = node # rest \<and> r = PqPacket node
                   \<and> q' = q0\<lparr>nodes := rest, nb_packets := nb_packets q0 - 1,
                              size_pq := size_pq q0 - size_pkt node\<rparr>))
           \<and> (pq_ret r = 0) = (block = 0 \<and> abort_request q = 0 \<and> nodes q = [])
           \<and> (pq_ret r = 0 \<longrightarrow> r = PqEmpty \<and> q' = q)
           \<and> (pq_ret r = -1) = (abort_request q0 \<noteq> 0)
           \<and> (pq_ret r = -1 \<longrightarrow> r = PqAborted \<and> q' = q0)"
proof -
  from pq_get_woken [OF assms] obtain k where k: "k \<le> length ws"
      "\<forall>j<k. nodes (fold wake_apply (take j ws) q) = []
             \<and> abort_request (fold wake_apply (take j ws) q) = 0"
      "block = 0 \<longrightarrow> k = 0"
      "pq_get (fold wake_apply (take k ws) q) block [] = Some (r, q')"
    by blast
  define q0 where "q0 = fold wake_apply (take k ws) q"
  have z: "block = 0 \<longrightarrow> q0 = q"
    using k(3) by (auto simp: q0_def)
  have g: "pq_get q0 block [] = Some (r, q')"
    using k(4) by (simp add: q0_def)
  have "(pq_ret r = 1 \<or> pq_ret r = 0 \<or> pq_ret r = -1)
           \<and> (pq_ret r = 1) = (abort_request q0 = 0 \<and> nodes q0 \<noteq> [])
           \<and> (pq_ret r = 1 \<longrightarrow>
                (\<exists>node rest. nodes q0 = node # rest \<and> r = PqPacket node
                   \<and> q' = q0\<lparr>nodes := rest, nb_packets := nb_packets q0 - 1,
                              size_pq := size_pq q0 - size_pkt node\<rparr>))
           \<and> (pq_ret r = 0) = (block = 0 \<and> abort_request q = 0 \<and> nodes q = [])
           \<and> (pq_ret r = 0 \<longrightarrow> r = PqEmpty \<and> q' = q)
           \<and> (pq_ret r = -1) = (abort_request q0 \<noteq> 0)
           \<and> (pq_ret r = -1 \<longrightarrow> r = PqAborted \<and> q' = q0)"
    using g z
    by (auto simp: pq_get.simps [of q0 block "[]"] split: if_splits list.splits)
  with k(1-3) show ?thesis
    unfolding q0_def by blast
qed

text \<open>
  C6.  A pop returns one of three results.  With \<open>abort_request\<close> set it returns -1 at once;
  with a node in the queue it returns 1 at once with the front node, removed from the
  queue, and both counters decremented; with no node and \<open>block = 0\<close> it returns 0 at
  once and the queue is unchanged.  A pop with \<open>block \<noteq> 0\<close> on an empty queue waits: it
  consumes wake-ups as long as the queue has no node and is not aborted, and the
  result is the one above for the queue \<open>q0\<close> as the \<open>k\<close> wake-ups consumed have left
  it: 1 with the front node of \<open>q0\<close> removed and the counters of \<open>q0\<close> decremented, or
  -1 with \<open>q0\<close> unchanged; it never returns 0.  A waiting pop returns as soon as another
  thread has pushed a packet or set \<open>abort_request\<close>.
\<close>

theorem pq_get_results:
  "(block = 0 \<or> nodes q \<noteq> [] \<or> abort_request q \<noteq> 0 \<or> (\<exists>w \<in> set ws. w \<noteq> WakeSpurious)
      \<longrightarrow> (\<exists>r q'. pq_get q block ws = Some (r, q')))
   \<and> (abort_request q \<noteq> 0 \<longrightarrow> pq_get q block ws = Some (PqAborted, q))
   \<and> (abort_request q = 0 \<longrightarrow>
        (\<forall>node rest. nodes q = node # rest \<longrightarrow>
           pq_get q block ws = Some (PqPacket node,
              q\<lparr>nodes := rest, nb_packets := nb_packets q - 1,
                size_pq := size_pq q - size_pkt node\<rparr>)))
   \<and> (abort_request q = 0 \<and> nodes q = [] \<and> block = 0 \<longrightarrow> pq_get q block ws = Some (PqEmpty, q))
   \<and> (\<forall>r q'. pq_get q block ws = Some (r, q') \<longrightarrow>
        (\<exists>k q0. k \<le> length ws \<and> q0 = fold wake_apply (take k ws) q
           \<and> (\<forall>j<k. nodes (fold wake_apply (take j ws) q) = []
                     \<and> abort_request (fold wake_apply (take j ws) q) = 0)
           \<and> (block = 0 \<longrightarrow> k = 0)
           \<and> (pq_ret r = 1 \<or> pq_ret r = 0 \<or> pq_ret r = -1)
           \<and> (pq_ret r = 1) = (abort_request q0 = 0 \<and> nodes q0 \<noteq> [])
           \<and> (pq_ret r = 1 \<longrightarrow>
                (\<exists>node rest. nodes q0 = node # rest \<and> r = PqPacket node
                   \<and> q' = q0\<lparr>nodes := rest, nb_packets := nb_packets q0 - 1,
                              size_pq := size_pq q0 - size_pkt node\<rparr>))
           \<and> (pq_ret r = 0) = (block = 0 \<and> abort_request q = 0 \<and> nodes q = [])
           \<and> (pq_ret r = 0 \<longrightarrow> r = PqEmpty \<and> q' = q)
           \<and> (pq_ret r = -1) = (abort_request q0 \<noteq> 0)
           \<and> (pq_ret r = -1 \<longrightarrow> r = PqAborted \<and> q' = q0))
      \<and> (block \<noteq> 0 \<longrightarrow> pq_ret r \<noteq> 0))"
proof -
  have 1: "block = 0 \<or> nodes q \<noteq> [] \<or> abort_request q \<noteq> 0 \<or> (\<exists>w \<in> set ws. w \<noteq> WakeSpurious)
      \<longrightarrow> (\<exists>r q'. pq_get q block ws = Some (r, q'))"
  proof (rule impI)
    assume a: "block = 0 \<or> nodes q \<noteq> [] \<or> abort_request q \<noteq> 0 \<or> (\<exists>w \<in> set ws. w \<noteq> WakeSpurious)"
    show "\<exists>r q'. pq_get q block ws = Some (r, q')"
    proof (cases "\<exists>w \<in> set ws. w \<noteq> WakeSpurious")
      case True
      then show ?thesis by (rule pq_get_blocking_returns)
    next
      case False
      with a have "\<not> (abort_request q = 0 \<and> nodes q = [] \<and> block \<noteq> 0)" by auto
      then show ?thesis
        by (auto simp: pq_get.simps [of q block ws] split: list.splits)
    qed
  qed
  note 2 = pq_get_at_once [of q block ws]
  have 3: "\<forall>r q'. pq_get q block ws = Some (r, q') \<longrightarrow>
        (\<exists>k q0. k \<le> length ws \<and> q0 = fold wake_apply (take k ws) q
           \<and> (\<forall>j<k. nodes (fold wake_apply (take j ws) q) = []
                     \<and> abort_request (fold wake_apply (take j ws) q) = 0)
           \<and> (block = 0 \<longrightarrow> k = 0)
           \<and> (pq_ret r = 1 \<or> pq_ret r = 0 \<or> pq_ret r = -1)
           \<and> (pq_ret r = 1) = (abort_request q0 = 0 \<and> nodes q0 \<noteq> [])
           \<and> (pq_ret r = 1 \<longrightarrow>
                (\<exists>node rest. nodes q0 = node # rest \<and> r = PqPacket node
                   \<and> q' = q0\<lparr>nodes := rest, nb_packets := nb_packets q0 - 1,
                              size_pq := size_pq q0 - size_pkt node\<rparr>))
           \<and> (pq_ret r = 0) = (block = 0 \<and> abort_request q = 0 \<and> nodes q = [])
           \<and> (pq_ret r = 0 \<longrightarrow> r = PqEmpty \<and> q' = q)
           \<and> (pq_ret r = -1) = (abort_request q0 \<noteq> 0)
           \<and> (pq_ret r = -1 \<longrightarrow> r = PqAborted \<and> q' = q0))
      \<and> (block \<noteq> 0 \<longrightarrow> pq_ret r \<noteq> 0)"
  proof (intro allI impI)
    fix r q' assume g: "pq_get q block ws = Some (r, q')"
    note c = pq_get_result_of [OF g]
    from c have "block \<noteq> 0 \<longrightarrow> pq_ret r \<noteq> 0" by blast
    with c show "(\<exists>k q0. k \<le> length ws \<and> q0 = fold wake_apply (take k ws) q
           \<and> (\<forall>j<k. nodes (fold wake_apply (take j ws) q) = []
                     \<and> abort_request (fold wake_apply (take j ws) q) = 0)
           \<and> (block = 0 \<longrightarrow> k = 0)
           \<and> (pq_ret r = 1 \<or> pq_ret r = 0 \<or> pq_ret r = -1)
           \<and> (pq_ret r = 1) = (abort_request q0 = 0 \<and> nodes q0 \<noteq> [])
           \<and> (pq_ret r = 1 \<longrightarrow>
                (\<exists>node rest. nodes q0 = node # rest \<and> r = PqPacket node
                   \<and> q' = q0\<lparr>nodes := rest, nb_packets := nb_packets q0 - 1,
                              size_pq := size_pq q0 - size_pkt node\<rparr>))
           \<and> (pq_ret r = 0) = (block = 0 \<and> abort_request q = 0 \<and> nodes q = [])
           \<and> (pq_ret r = 0 \<longrightarrow> r = PqEmpty \<and> q' = q)
           \<and> (pq_ret r = -1) = (abort_request q0 \<noteq> 0)
           \<and> (pq_ret r = -1 \<longrightarrow> r = PqAborted \<and> q' = q0))
      \<and> (block \<noteq> 0 \<longrightarrow> pq_ret r \<noteq> 0)" by (rule conjI)
  qed
  from 2 have 2: "abort_request q \<noteq> 0 \<longrightarrow> pq_get q block ws = Some (PqAborted, q)"
    and 4: "abort_request q = 0 \<longrightarrow>
        (\<forall>node rest. nodes q = node # rest \<longrightarrow>
           pq_get q block ws = Some (PqPacket node,
              q\<lparr>nodes := rest, nb_packets := nb_packets q - 1,
                size_pq := size_pq q - size_pkt node\<rparr>))"
    and 5: "abort_request q = 0 \<and> nodes q = [] \<and> block = 0 \<longrightarrow> pq_get q block ws = Some (PqEmpty, q)"
    by blast+
  show ?thesis
    by (rule conjI [OF 1 conjI [OF 2 conjI [OF 4 conjI [OF 5 3]]]])
qed

theorem pq_get_results_witness:
  "pq_get pq_init 1 [WakeSpurious, WakePut pkt_a] = Some (PqPacket pkt_a, pq_init)
   \<and> fold wake_apply (take 2 [WakeSpurious, WakePut pkt_a]) pq_init
       = \<lparr>nodes = [pkt_a], nb_packets = 1, size_pq = size_pkt pkt_a, abort_request = 0\<rparr>
   \<and> pq_ret (PqPacket pkt_a) = 1
   \<and> pq_get pq_init 0 [] = Some (PqEmpty, pq_init)
   \<and> pq_get (pq_init\<lparr>abort_request := 1\<rparr>) 1 [] = Some (PqAborted, pq_init\<lparr>abort_request := 1\<rparr>)"
proof -
  have f: "fold wake_apply (take 2 [WakeSpurious, WakePut pkt_a]) pq_init
       = \<lparr>nodes = [pkt_a], nb_packets = 1, size_pq = size_pkt pkt_a, abort_request = 0\<rparr>"
    by (simp add: pq_init_def pq_put_def numeral_2_eq_2)
  have "\<exists>r q'. pq_get pq_init 1 [WakeSpurious, WakePut pkt_a] = Some (r, q')"
    using pq_get_results [of 1 pq_init "[WakeSpurious, WakePut pkt_a]"] by simp
  then obtain r q' where g: "pq_get pq_init 1 [WakeSpurious, WakePut pkt_a] = Some (r, q')"
    by blast
  have r: "pq_get pq_init 1 [WakeSpurious, WakePut pkt_a] = Some (PqPacket pkt_a, pq_init)"
    by (simp add: pq_get.simps pq_init_def pq_put_def pkt_a_def)
  have e: "pq_get pq_init 0 [] = Some (PqEmpty, pq_init)"
    using pq_get_results [of 0 pq_init "[]"] by (simp add: pq_init_def)
  have a: "pq_get (pq_init\<lparr>abort_request := 1\<rparr>) 1 [] = Some (PqAborted, pq_init\<lparr>abort_request := 1\<rparr>)"
    using pq_get_results [of 1 "pq_init\<lparr>abort_request := 1\<rparr>" "[]"] by (simp add: pq_init_def)
  from f r e a show ?thesis by simp
qed

subsection \<open>The non-blocking calls return\<close>

lemma pq_get_0_cases:
  "pq_get q 0 [] = Some (PqAborted, q) \<and> abort_request q \<noteq> 0
   \<or> pq_get q 0 [] = Some (PqEmpty, q) \<and> abort_request q = 0 \<and> nodes q = []
   \<or> (\<exists>node rest. nodes q = node # rest \<and> abort_request q = 0
         \<and> pq_get q 0 [] = Some (PqPacket node, q\<lparr>nodes := rest, nb_packets := nb_packets q - 1,
                                                   size_pq := size_pq q - size_pkt node\<rparr>))"
  by (auto simp: pq_get.simps [of q 0 "[]"] split: list.splits)

lemma audio_decode_frame_returns: "\<exists>n ps'. audio_decode_frame L ps = Some (n, ps')"
proof (induction L ps rule: audio_decode_frame.induct)
  case (1 L ps)
  obtain rr c where rc: "avcodec_receive_frame L (audio_codec_ctx ps) = (rr, c)"
    by (cases "avcodec_receive_frame L (audio_codec_ctx ps)")
  show ?case
  proof (cases rr)
    case (RecvFrame fr)
    with rc show ?thesis
      by (cases "audio_frame_ready L (ps\<lparr>audio_codec_ctx := c\<rparr>) fr")
         (simp add: audio_decode_frame.simps [of L ps])
  next
    case RecvError
    with rc show ?thesis by (simp add: audio_decode_frame.simps [of L ps])
  next
    case RecvAgain
    from pq_get_nonblocking [of "audio_pq ps" "[]"]
    obtain r q where g: "pq_get (audio_pq ps) 0 [] = Some (r, q)" by blast
    show ?thesis
    proof (cases r)
      case (PqPacket pkt)
      obtain ret c' where s: "avcodec_send_packet L c pkt = (ret, c')"
        by (cases "avcodec_send_packet L c pkt")
      show ?thesis
      proof (cases "ret < 0")
        case True
        with rc RecvAgain g PqPacket s show ?thesis
          by (simp add: audio_decode_frame.simps [of L ps])
      next
        case False
        have "\<exists>n ps'. audio_decode_frame L (ps\<lparr>audio_codec_ctx := c', audio_pq := q\<rparr>) = Some (n, ps')"
          by (rule "1.IH" [of rr c "(PqPacket pkt, q)" "PqPacket pkt" q pkt ret c'])
             (simp_all add: rc RecvAgain g PqPacket s False)
        then show ?thesis
          using rc RecvAgain g PqPacket s False by (simp add: audio_decode_frame.simps [of L ps])
      qed
    next
      case PqEmpty
      with rc RecvAgain g show ?thesis by (simp add: audio_decode_frame.simps [of L ps])
    next
      case PqAborted
      with rc RecvAgain g show ?thesis by (simp add: audio_decode_frame.simps [of L ps])
    qed
  qed
qed

lemma video_decode_loop_returns: "\<exists>n ps'. video_decode_loop L ps = Some (n, ps')"
proof (induction L ps rule: video_decode_loop.induct)
  case (1 L ps)
  obtain rr c where rc: "avcodec_receive_frame L (video_codec_ctx ps) = (rr, c)"
    by (cases "avcodec_receive_frame L (video_codec_ctx ps)")
  show ?case
  proof (cases rr)
    case (RecvFrame fr)
    with rc show ?thesis by (simp add: video_decode_loop.simps [of L ps])
  next
    case RecvError
    with rc show ?thesis by (simp add: video_decode_loop.simps [of L ps])
  next
    case RecvAgain
    from pq_get_nonblocking [of "video_pq ps" "[]"]
    obtain r q where g: "pq_get (video_pq ps) 0 [] = Some (r, q)" by blast
    show ?thesis
    proof (cases r)
      case (PqPacket pkt)
      have "\<exists>n ps'. video_decode_loop L
              (ps\<lparr>video_codec_ctx := snd (avcodec_send_packet L c pkt), video_pq := q\<rparr>) = Some (n, ps')"
        by (rule "1.IH" [of rr c "(PqPacket pkt, q)" "PqPacket pkt" q pkt])
           (simp_all add: rc RecvAgain g PqPacket)
      then show ?thesis
        using rc RecvAgain g PqPacket by (simp add: video_decode_loop.simps [of L ps])
    next
      case PqEmpty
      with rc RecvAgain g show ?thesis by (simp add: video_decode_loop.simps [of L ps])
    next
      case PqAborted
      with rc RecvAgain g show ?thesis by (simp add: video_decode_loop.simps [of L ps])
    qed
  qed
qed

lemma video_decode_frame_returns: "\<exists>n ps'. video_decode_frame L trylock ps = Some (n, ps')"
  using video_decode_loop_returns [of L ps] by (simp add: video_decode_frame_def)

lemma audio_refill_returns: "\<exists>b ps'. audio_refill L ps = Some (b, ps')"
  using audio_decode_frame_returns [of L ps] by (auto simp: audio_refill_def)

lemma audio_refill_data:
  "audio_refill L ps = Some (False, ps1) \<Longrightarrow> audio_buf_index ps1 < audio_buf_size ps1"
  by (auto simp: audio_refill_def split: if_splits option.splits)

lemma audio_fill_returns: "\<exists>ps' out w. audio_fill L len ps stream written = Some (ps', out, w)"
proof (induction L len ps stream written rule: audio_fill.induct)
  case (1 L len ps stream written)
  show ?case
  proof (cases "written < len")
    case False
    then show ?thesis by (simp add: audio_fill.simps [of L len ps stream written])
  next
    case True
    from audio_refill_returns [of L ps]
    obtain b ps1 where r: "audio_refill L ps = Some (b, ps1)" by blast
    show ?thesis
    proof (cases b)
      case True
      with r \<open>written < len\<close> show ?thesis
        by (simp add: audio_fill.simps [of L len ps stream written])
    next
      case False
      define to_copy where "to_copy =
        (if len - written > audio_buf_size ps1 - audio_buf_index ps1
         then audio_buf_size ps1 - audio_buf_index ps1 else len - written)"
      have "\<exists>ps' out w. audio_fill L len (ps1\<lparr>audio_buf_index := audio_buf_index ps1 + to_copy\<rparr>)
                (mix_into L ps1 stream written to_copy) (written + to_copy) = Some (ps', out, w)"
        unfolding to_copy_def
        by (rule "1.IH" [of "(b, ps1)" b ps1, unfolded Let_def])
           (simp_all add: r False \<open>written < len\<close>)
      then show ?thesis
        using r False \<open>written < len\<close>
        by (simp add: audio_fill.simps [of L len ps stream written] Let_def to_copy_def)
    qed
  qed
qed

lemma audio_callback_returns: "\<exists>ps' out. audio_callback L ps stream len = Some (ps', out)"
  using audio_fill_returns [of L len ps "memset_zero stream len" 0]
  by (auto simp: audio_callback_def Let_def)

lemma sub_scan_returns: "\<exists>c' q' kept. sub_scan L tb now c q = Some (c', q', kept)"
proof (induction L tb now c q rule: sub_scan.induct)
  case (1 L tb now c q)
  from pq_get_nonblocking [of q "[]"]
  obtain r q1 where g: "pq_get q 0 [] = Some (r, q1)" by blast
  show ?case
  proof (cases r)
    case PqEmpty
    with g show ?thesis by (simp add: sub_scan.simps [of L tb now c q])
  next
    case PqAborted
    with g show ?thesis by (simp add: sub_scan.simps [of L tb now c q])
  next
    case (PqPacket pkt)
    obtain ret got sub c1 where d: "avcodec_decode_subtitle2 L c pkt = ((ret, got, sub), c1)"
      by (cases "avcodec_decode_subtitle2 L c pkt") auto
    have ih: "\<exists>c' q' kept. sub_scan L tb now c1 q1 = Some (c', q', kept)"
      if rej: "ret < 0 \<or> got = 0 \<or> sub_extract_text sub = [] \<or> snd (sub_timing tb pkt sub) < now"
    proof -
      consider (a) "ret < 0 \<or> got = 0"
        | (b) "\<not> (ret < 0 \<or> got = 0)" "sub_extract_text sub = []"
        | (c) "\<not> (ret < 0 \<or> got = 0)" "sub_extract_text sub \<noteq> []" "snd (sub_timing tb pkt sub) < now"
        using rej by blast
      then show ?thesis
      proof cases
        case a
        show ?thesis
          by (rule "1.IH"(1) [of "(r, q1)" r q1 pkt "(ret, got, sub)" c1 ret "(got, sub)" got sub])
             (use g PqPacket d a in simp_all)
      next
        case b
        show ?thesis
          by (rule "1.IH"(2) [of "(r, q1)" r q1 pkt "(ret, got, sub)" c1 ret "(got, sub)" got sub])
             (use g PqPacket d b in simp_all)
      next
        case c
        show ?thesis
          by (rule "1.IH"(3) [of "(r, q1)" r q1 pkt "(ret, got, sub)" c1 ret "(got, sub)" got sub])
             (use g PqPacket d c in simp_all)
      qed
    qed
    show ?thesis
    proof (cases "ret < 0 \<or> got = 0 \<or> sub_extract_text sub = [] \<or> snd (sub_timing tb pkt sub) < now")
      case True
      from ih [OF True] show ?thesis
        using g PqPacket d True by (auto simp: sub_scan.simps [of L tb now c q])
    next
      case False
      then show ?thesis
        using g PqPacket d by (auto simp: sub_scan.simps [of L tb now c q])
    qed
  qed
qed

lemma sub_decode_pending_returns: "\<exists>ps'. sub_decode_pending L ps = Some ps'"
proof (cases "sub_codec_ctx ps")
  case None
  then show ?thesis by (simp add: sub_decode_pending_def)
next
  case (Some c)
  from sub_scan_returns [of L "stream_time_base L (fmt_ctx ps) (sub_active_idx ps)" "sub_now ps" c
      "sub_pqs ps ! nat (sub_selection ps - 1)"]
  obtain c' q' kept where
    "sub_scan L (stream_time_base L (fmt_ctx ps) (sub_active_idx ps)) (sub_now ps) c
       (sub_pqs ps ! nat (sub_selection ps - 1)) = Some (c', q', kept)"
    by blast
  with Some show ?thesis
    by (simp add: sub_decode_pending_def Let_def)
qed

lemma render_tick_returns: "\<exists>t ps'. render_tick L trylock now ps = Some (t, ps')"
proof -
  from sub_decode_pending_returns [of L ps]
  obtain ps1 where a: "sub_decode_pending L ps = Some ps1" by blast
  from video_decode_frame_returns [of L trylock ps1]
  obtain vret ps2 where b: "video_decode_frame L trylock ps1 = Some (vret, ps2)" by blast
  show ?thesis
    using a b by (cases "video_sync ps2 now") (simp add: render_tick_def)
qed

lemma session_step_returns: "\<exists>ps'. session_step L e ps = Some ps'"
proof (cases e)
  case (EvAudioCallback stream len)
  with audio_callback_returns [of L ps stream len] show ?thesis by auto
next
  case (EvRenderTick trylock now)
  with render_tick_returns [of L trylock now ps] show ?thesis by auto
next
  case EvPausedTick
  with sub_decode_pending_returns [of L ps] show ?thesis by simp
qed simp_all

lemma session_run_returns: "\<exists>ps'. session_run L es ps = Some ps'"
proof (induction es arbitrary: ps)
  case Nil
  show ?case by simp
next
  case (Cons e es)
  from session_step_returns [of L e ps]
  obtain ps1 where "session_step L e ps = Some ps1" by blast
  with Cons [of ps1] show ?case by simp
qed

subsection \<open>The pending seek\<close>

lemma demux_seek_fields:
  "demux_seek L ps =
     (let r = av_seek_frame L (fmt_ctx ps) (seek_target ps) (seek_flags ps) in
      ps\<lparr>fmt_ctx := snd r,
         video_pq := (if fst r < 0 then video_pq ps else pq_flush (video_pq ps)),
         audio_pq := (if fst r < 0 then audio_pq ps else pq_flush (audio_pq ps)),
         video_codec_ctx := (if fst r < 0 then video_codec_ctx ps
                             else map_option (avcodec_flush_buffers L) (video_codec_ctx ps)),
         audio_codec_ctx := (if fst r < 0 then audio_codec_ctx ps
                             else map_option (avcodec_flush_buffers L) (audio_codec_ctx ps)),
         seek_request := 0, eof := 0, audio_buf_size := 0, audio_buf_index := 0, seeking := 0,
         dev_paused := (if audio_dev ps \<noteq> 0 then paused ps \<noteq> 0 else dev_paused ps)\<rparr>)"
  by (cases "av_seek_frame L (fmt_ctx ps) (seek_target ps) (seek_flags ps)")
     (simp add: demux_seek_def Let_def)

text \<open>
  C2 (amended).  When the demux thread consumes a pending seek request: if \<open>av_seek_frame\<close>
  succeeds, the video and the audio packet queue are flushed (no node, both counters 0),
  the buffers of the video and of the audio codec are flushed when the codec is open, and
  the position bookkeeping of the thread is reset (\<open>eof\<close>, \<open>audio_buf_size\<close> and
  \<open>audio_buf_index\<close> are 0: the carry-over of the audio buffer is dropped); if it fails,
  both queues and both codec contexts are as before and the playback position (the
  clocks and \<open>frame_last_pts\<close>) is not written.  In both cases \<open>seek_request\<close> and
  \<open>seeking\<close> are 0 and the iteration goes on to the throttle check and the read.  The audio
  device is resumed when playback is not paused; when playback is paused the device
  stays paused.
\<close>

theorem demux_seek_effect:
  assumes "seek_request ps \<noteq> 0"
    and "ps' = demux_seek L ps"
    and "ret = fst (av_seek_frame L (fmt_ctx ps) (seek_target ps) (seek_flags ps))"
  shows "(0 \<le> ret \<longrightarrow>
            video_pq ps' = pq_flush (video_pq ps) \<and> audio_pq ps' = pq_flush (audio_pq ps)
          \<and> nodes (video_pq ps') = [] \<and> nb_packets (video_pq ps') = 0 \<and> size_pq (video_pq ps') = 0
          \<and> nodes (audio_pq ps') = [] \<and> nb_packets (audio_pq ps') = 0 \<and> size_pq (audio_pq ps') = 0
          \<and> video_codec_ctx ps' = map_option (avcodec_flush_buffers L) (video_codec_ctx ps)
          \<and> audio_codec_ctx ps' = map_option (avcodec_flush_buffers L) (audio_codec_ctx ps)
          \<and> eof ps' = 0 \<and> audio_buf_size ps' = 0 \<and> audio_buf_index ps' = 0)
       \<and> (ret < 0 \<longrightarrow>
            video_pq ps' = video_pq ps \<and> audio_pq ps' = audio_pq ps
          \<and> video_codec_ctx ps' = video_codec_ctx ps \<and> audio_codec_ctx ps' = audio_codec_ctx ps
          \<and> video_clock ps' = video_clock ps \<and> audio_clock ps' = audio_clock ps
          \<and> frame_last_pts ps' = frame_last_pts ps \<and> frame_timer ps' = frame_timer ps)
       \<and> video_clock ps' = video_clock ps \<and> audio_clock ps' = audio_clock ps
       \<and> frame_last_pts ps' = frame_last_pts ps
       \<and> fmt_ctx ps' = snd (av_seek_frame L (fmt_ctx ps) (seek_target ps) (seek_flags ps))
       \<and> seek_request ps' = 0 \<and> seeking ps' = 0 \<and> eof ps' = 0
       \<and> audio_buf_size ps' = 0 \<and> audio_buf_index ps' = 0
       \<and> (audio_dev ps \<noteq> 0 \<and> paused ps = 0 \<longrightarrow> \<not> dev_paused ps')
       \<and> (audio_dev ps \<noteq> 0 \<and> paused ps \<noteq> 0 \<longrightarrow> dev_paused ps')
       \<and> (audio_dev ps = 0 \<longrightarrow> dev_paused ps' = dev_paused ps)
       \<and> demux_iter L alloc ps = demux_read L alloc ps'"
  using assms by (simp add: demux_seek_fields Let_def pq_flush_def demux_iter_def)

theorem demux_seek_effect_witness:
  "seek_request ps_seek_fail = 1
   \<and> fst (av_seek_frame lib0 (fmt_ctx ps_seek_fail) (seek_target ps_seek_fail) (seek_flags ps_seek_fail)) = -1
   \<and> video_pq (demux_seek lib0 ps_seek_fail) = \<lparr>nodes = [pkt_a], nb_packets = 1, size_pq = 1500, abort_request = 0\<rparr>
   \<and> video_clock (demux_seek lib0 ps_seek_fail) = 2
   \<and> eof (demux_seek lib0 ps_seek_fail) = 0
   \<and> seek_request (demux_seek lib0 ps_seek_fail) = 0
   \<and> dev_paused (demux_seek lib0 ps_seek_fail) = False"
proof -
  have a: "seek_request ps_seek_fail \<noteq> 0"
    by (simp add: ps_seek_fail_def ps0_def)
  have r: "fst (av_seek_frame lib0 (fmt_ctx ps_seek_fail) (seek_target ps_seek_fail) (seek_flags ps_seek_fail)) = -1"
    by (simp add: ps_seek_fail_def ps0_def lib0_def)
  show ?thesis
    using demux_seek_effect [OF a refl r [symmetric], of "(True, True)"] r
    by (simp add: ps_seek_fail_def ps0_def)
qed

text \<open>
  C2 as stated says that every packet queue and the buffers of every open codec are
  flushed by a successful seek and that the audio device is resumed in both cases.  With
  playback paused by the user and a subtitle track selected, a successful seek leaves the
  device paused, and it leaves the subtitle codec (whose flushed state is \<open>[]\<close>) and the
  packet in the subtitle queue as they were.
\<close>

theorem demux_seek_paused_counterexample:
  "seek_request ps_seek_paused = 1 \<and> audio_dev ps_seek_paused = 2 \<and> paused ps_seek_paused = 1
   \<and> fst (av_seek_frame lib0 (fmt_ctx ps_seek_paused) (seek_target ps_seek_paused)
            (seek_flags ps_seek_paused)) = 0
   \<and> seek_request (demux_seek lib0 ps_seek_paused) = 0
   \<and> dev_paused (demux_seek lib0 ps_seek_paused) = True
   \<and> sub_codec_ctx ps_seek_paused = Some [7]
   \<and> map_option (avcodec_flush_buffers lib0) (sub_codec_ctx ps_seek_paused) = Some []
   \<and> sub_codec_ctx (demux_seek lib0 ps_seek_paused) = Some [7]
   \<and> nodes (sub_pqs (demux_seek lib0 ps_seek_paused) ! 0) = [pkt_b]
   \<and> nodes (video_pq (demux_seek lib0 ps_seek_paused)) = []"
  by (simp add: demux_seek_fields Let_def ps_seek_paused_def ps0_def lib0_def pq_flush_def)

subsection \<open>What each call writes\<close>

lemma audio_swr_setup_outside:
  "outside_audio (snd (audio_swr_setup L ps fr)) = outside_audio ps"
  by (simp add: audio_swr_setup_def outside_audio_def split: prod.splits)

lemma audio_buf_grow_outside:
  "outside_audio (snd (audio_buf_grow L ps n)) = outside_audio ps"
  by (simp add: audio_buf_grow_def outside_audio_def split: option.splits)

lemma audio_clock_set_outside:
  "outside_audio (audio_clock_set L ps fr n) = outside_audio ps"
  by (simp add: audio_clock_set_def outside_audio_def Let_def)

lemma audio_frame_ready_outside:
  "outside_audio (snd (audio_frame_ready L ps fr)) = outside_audio ps"
proof -
  obtain ok1 ps1 where s1: "audio_swr_setup L ps fr = (ok1, ps1)"
    by (cases "audio_swr_setup L ps fr")
  have o1: "outside_audio ps1 = outside_audio ps"
    using audio_swr_setup_outside [of L ps fr] s1 by simp
  define n where "n = swr_get_out_samples L (swr_ctx ps1) (nb_samples fr)"
  obtain ok2 ps2 where s2: "audio_buf_grow L ps1 (n * 2 * 2) = (ok2, ps2)"
    by (cases "audio_buf_grow L ps1 (n * 2 * 2)")
  have o2: "outside_audio ps2 = outside_audio ps"
    using audio_buf_grow_outside [of L ps1 "n * 2 * 2"] s2 o1 by simp
  obtain cv bytes r3 where s3: "swr_convert L (swr_ctx ps2) n fr = (cv, bytes, r3)"
    by (cases "swr_convert L (swr_ctx ps2) n fr") auto
  have o3: "outside_audio (ps2\<lparr>swr_ctx := r3, audio_buf := Some (write_front bytes (audio_buf ps2))\<rparr>)
              = outside_audio ps"
    using o2 by (simp add: outside_audio_def)
  show ?thesis
    using s1 s2 s3 o1 o2 o3
    by (cases ok1; cases ok2; cases "cv < 0")
       (simp_all add: audio_frame_ready_def Let_def n_def audio_clock_set_outside)
qed

lemma outside_audio_upd:
  "outside_audio (ps\<lparr>audio_codec_ctx := c\<rparr>) = outside_audio ps"
  "outside_audio (ps\<lparr>audio_codec_ctx := c, audio_pq := q\<rparr>) = outside_audio ps"
  "outside_audio (ps\<lparr>audio_buf_size := n, audio_buf_index := i\<rparr>) = outside_audio ps"
  "outside_audio (ps\<lparr>audio_buf_index := i\<rparr>) = outside_audio ps"
  by (simp_all add: outside_audio_def)

lemma audio_decode_frame_outside:
  "audio_decode_frame L ps = Some (n, ps') \<Longrightarrow> outside_audio ps' = outside_audio ps"
proof (induction L ps rule: audio_decode_frame.induct)
  case (1 L ps)
  obtain rr c where rc: "avcodec_receive_frame L (audio_codec_ctx ps) = (rr, c)"
    by (cases "avcodec_receive_frame L (audio_codec_ctx ps)")
  show ?case
  proof (cases rr)
    case (RecvFrame fr)
    with rc "1.prems" have "ps' = snd (audio_frame_ready L (ps\<lparr>audio_codec_ctx := c\<rparr>) fr)"
      by (simp add: audio_decode_frame.simps [of L ps])
    then show ?thesis
      by (simp add: audio_frame_ready_outside outside_audio_upd)
  next
    case RecvError
    with rc "1.prems" show ?thesis
      by (auto simp: audio_decode_frame.simps [of L ps] outside_audio_upd)
  next
    case RecvAgain
    from pq_get_nonblocking [of "audio_pq ps" "[]"]
    obtain r q where g: "pq_get (audio_pq ps) 0 [] = Some (r, q)" by blast
    show ?thesis
    proof (cases r)
      case (PqPacket pkt)
      obtain ret c' where s: "avcodec_send_packet L c pkt = (ret, c')"
        by (cases "avcodec_send_packet L c pkt")
      show ?thesis
      proof (cases "ret < 0")
        case True
        with rc RecvAgain g PqPacket s "1.prems" show ?thesis
          by (auto simp: audio_decode_frame.simps [of L ps] outside_audio_upd)
      next
        case False
        have "audio_decode_frame L (ps\<lparr>audio_codec_ctx := c', audio_pq := q\<rparr>) = Some (n, ps')"
          using rc RecvAgain g PqPacket s False "1.prems"
          by (simp add: audio_decode_frame.simps [of L ps])
        then have "outside_audio ps' = outside_audio (ps\<lparr>audio_codec_ctx := c', audio_pq := q\<rparr>)"
          by (rule "1.IH" [of rr c "(PqPacket pkt, q)" "PqPacket pkt" q pkt ret c', rotated -1])
             (simp_all add: rc RecvAgain g PqPacket s False)
        then show ?thesis by (simp add: outside_audio_upd)
      qed
    next
      case PqEmpty
      with rc RecvAgain g "1.prems" show ?thesis
        by (auto simp: audio_decode_frame.simps [of L ps] outside_audio_upd)
    next
      case PqAborted
      with rc RecvAgain g "1.prems" show ?thesis
        by (auto simp: audio_decode_frame.simps [of L ps] outside_audio_upd)
    qed
  qed
qed

lemma audio_refill_outside:
  assumes "audio_refill L ps = Some (b, ps')"
  shows "outside_audio ps' = outside_audio ps"
proof (cases "audio_buf_index ps \<ge> audio_buf_size ps")
  case False
  with assms show ?thesis by (simp add: audio_refill_def)
next
  case True
  from audio_decode_frame_returns [of L ps]
  obtain n ps1 where d: "audio_decode_frame L ps = Some (n, ps1)" by blast
  note o = audio_decode_frame_outside [OF d]
  show ?thesis
    using assms True d o by (cases "n \<le> 0") (auto simp: audio_refill_def outside_audio_def)
qed

lemma audio_fill_outside:
  "audio_fill L len ps stream written = Some (ps', out, w) \<Longrightarrow> outside_audio ps' = outside_audio ps"
proof (induction L len ps stream written rule: audio_fill.induct)
  case (1 L len ps stream written)
  show ?case
  proof (cases "written < len")
    case False
    with "1.prems" show ?thesis by (simp add: audio_fill.simps [of L len ps stream written])
  next
    case True
    from audio_refill_returns [of L ps]
    obtain b ps1 where r: "audio_refill L ps = Some (b, ps1)" by blast
    note o1 = audio_refill_outside [OF r]
    show ?thesis
    proof (cases b)
      case True
      with r \<open>written < len\<close> "1.prems" o1 show ?thesis
        by (simp add: audio_fill.simps [of L len ps stream written])
    next
      case False
      define to_copy where "to_copy =
        (if len - written > audio_buf_size ps1 - audio_buf_index ps1
         then audio_buf_size ps1 - audio_buf_index ps1 else len - written)"
      have "audio_fill L len (ps1\<lparr>audio_buf_index := audio_buf_index ps1 + to_copy\<rparr>)
                (mix_into L ps1 stream written to_copy) (written + to_copy) = Some (ps', out, w)"
        using r False \<open>written < len\<close> "1.prems"
        by (simp add: audio_fill.simps [of L len ps stream written] Let_def to_copy_def)
      then have "outside_audio ps' = outside_audio (ps1\<lparr>audio_buf_index := audio_buf_index ps1 + to_copy\<rparr>)"
        unfolding to_copy_def
        by (rule "1.IH" [of "(b, ps1)" b ps1, unfolded Let_def, rotated -1])
           (simp_all add: r False \<open>written < len\<close>)
      then show ?thesis by (simp add: outside_audio_upd o1)
    qed
  qed
qed

lemma audio_callback_outside:
  "audio_callback L ps stream len = Some (ps', out) \<Longrightarrow> outside_audio ps' = outside_audio ps"
  by (auto simp: audio_callback_def Let_def split: if_splits option.splits dest: audio_fill_outside)

lemma video_decode_loop_outside:
  "video_decode_loop L ps = Some (n, ps') \<Longrightarrow> outside_video ps' = outside_video ps"
proof (induction L ps rule: video_decode_loop.induct)
  case (1 L ps)
  obtain rr c where rc: "avcodec_receive_frame L (video_codec_ctx ps) = (rr, c)"
    by (cases "avcodec_receive_frame L (video_codec_ctx ps)")
  show ?case
  proof (cases rr)
    case (RecvFrame fr)
    with rc "1.prems" show ?thesis
      by (auto simp: video_decode_loop.simps [of L ps] outside_video_def)
  next
    case RecvError
    with rc "1.prems" show ?thesis
      by (auto simp: video_decode_loop.simps [of L ps] outside_video_def)
  next
    case RecvAgain
    from pq_get_nonblocking [of "video_pq ps" "[]"]
    obtain r q where g: "pq_get (video_pq ps) 0 [] = Some (r, q)" by blast
    show ?thesis
    proof (cases r)
      case (PqPacket pkt)
      have "video_decode_loop L
              (ps\<lparr>video_codec_ctx := snd (avcodec_send_packet L c pkt), video_pq := q\<rparr>) = Some (n, ps')"
        using rc RecvAgain g PqPacket "1.prems" by (simp add: video_decode_loop.simps [of L ps])
      then have "outside_video ps'
          = outside_video (ps\<lparr>video_codec_ctx := snd (avcodec_send_packet L c pkt), video_pq := q\<rparr>)"
        by (rule "1.IH" [of rr c "(PqPacket pkt, q)" "PqPacket pkt" q pkt, rotated -1])
           (simp_all add: rc RecvAgain g PqPacket)
      then show ?thesis by (simp add: outside_video_def)
    next
      case PqEmpty
      with rc RecvAgain g "1.prems" show ?thesis
        by (auto simp: video_decode_loop.simps [of L ps] outside_video_def)
    next
      case PqAborted
      with rc RecvAgain g "1.prems" show ?thesis
        by (auto simp: video_decode_loop.simps [of L ps] outside_video_def)
    qed
  qed
qed

lemma video_decode_frame_outside:
  "video_decode_frame L trylock ps = Some (n, ps') \<Longrightarrow> outside_video ps' = outside_video ps"
  by (auto simp: video_decode_frame_def split: if_splits dest: video_decode_loop_outside)

lemma video_sync_outside: "outside_video (fst (video_sync ps now)) = outside_video ps"
  by (simp add: video_sync_def Let_def outside_video_def)

lemma sub_decode_pending_outside:
  "sub_decode_pending L ps = Some ps' \<Longrightarrow> outside_sub ps' = outside_sub ps"
  by (auto simp: sub_decode_pending_def Let_def outside_sub_def
      split: option.splits if_splits prod.splits)

lemma sub_scan_empty:
  "nodes q = [] \<Longrightarrow> sub_scan L tb now c q = Some (c, q, None)"
  using pq_get_0_cases [of q] by (auto simp: sub_scan.simps [of L tb now c q])

lemma sub_decode_pending_empty:
  assumes "\<forall>q \<in> set (sub_pqs ps). nodes q = []"
    and "sub_decode_pending L ps = Some ps'"
  shows "sub_pqs ps' = sub_pqs ps"
proof (cases "\<exists>c. sub_codec_ctx ps = Some c \<and> \<not> sub_active_idx ps < 0
    \<and> \<not> (sub_selection ps \<le> 0 \<or> sub_selection ps > sub_count ps)
    \<and> \<not> (sub_valid ps \<noteq> 0 \<and> sub_now ps \<le> sub_end_pts ps)")
  case False
  with assms(2) show ?thesis
    by (auto simp: sub_decode_pending_def Let_def split: option.splits if_splits)
next
  case True
  then obtain c where c: "sub_codec_ctx ps = Some c" by blast
  define i where "i = nat (sub_selection ps - 1)"
  show ?thesis
  proof (cases "i < length (sub_pqs ps)")
    case in_range: True
    then have "nodes (sub_pqs ps ! i) = []"
      using assms(1) by simp
    then have "sub_scan L (stream_time_base L (fmt_ctx ps) (sub_active_idx ps)) (sub_now ps) c
                 (sub_pqs ps ! i) = Some (c, sub_pqs ps ! i, None)"
      by (rule sub_scan_empty)
    with assms(2) True c show ?thesis
      by (auto simp: sub_decode_pending_def Let_def i_def)
  next
    case False
    with assms(2) True c show ?thesis
      using sub_scan_returns [of L "stream_time_base L (fmt_ctx ps) (sub_active_idx ps)" "sub_now ps" c
          "sub_pqs ps ! i"]
      by (auto simp: sub_decode_pending_def Let_def i_def list_update_beyond split: option.splits)
  qed
qed

lemma sub_pqs_outside_audio: "outside_audio ps' = outside_audio ps \<Longrightarrow> sub_pqs ps' = sub_pqs ps"
  by (drule arg_cong [where f = sub_pqs]) (simp add: outside_audio_def)

lemma sub_pqs_outside_video: "outside_video ps' = outside_video ps \<Longrightarrow> sub_pqs ps' = sub_pqs ps"
  by (drule arg_cong [where f = sub_pqs]) (simp add: outside_video_def)

lemma demux_seek_sub_pqs: "sub_pqs (demux_seek L ps) = sub_pqs ps"
  by (simp add: demux_seek_fields Let_def)

lemma demux_read_sub_pqs: "sub_pqs (snd (demux_read L alloc ps)) = sub_pqs ps"
  by (simp add: demux_read_def split: prod.splits read_result.splits)

lemma demux_iter_sub_pqs: "sub_pqs (snd (demux_iter L alloc ps)) = sub_pqs ps"
  by (simp add: demux_iter_def demux_read_sub_pqs demux_seek_sub_pqs)

lemma demux_thread_func_sub_pqs: "sub_pqs (demux_thread_func L as ps) = sub_pqs ps"
proof (induction as arbitrary: ps)
  case Nil
  show ?case by simp
next
  case (Cons a as)
  obtain ctl ps1 where i: "demux_iter L a ps = (ctl, ps1)"
    by (cases "demux_iter L a ps")
  with demux_iter_sub_pqs [of L a ps] have "sub_pqs ps1 = sub_pqs ps" by simp
  with Cons [of ps1] i show ?case by (cases ctl) simp_all
qed

lemma audio_open_sub_pqs: "sub_pqs (snd (audio_open L ps)) = sub_pqs ps"
  by (simp add: audio_open_def Let_def split: option.splits prod.splits)

lemma audio_cycle_sub_pqs: "sub_pqs (audio_cycle L ps now) = sub_pqs ps"
  by (simp add: audio_cycle_def Let_def audio_open_sub_pqs audio_close_def split: prod.splits)

lemma sub_open_codec_sub_pqs: "sub_pqs (snd (sub_open_codec L ps i)) = sub_pqs ps"
  by (simp add: sub_open_codec_def sub_close_codec_def Let_def split: prod.splits)

lemma sub_cycle_sub_pqs: "sub_pqs (sub_cycle L ps now) = sub_pqs ps"
  by (simp add: sub_cycle_def Let_def sub_open_codec_sub_pqs sub_close_codec_def)

lemma render_tick_sub_pqs:
  assumes "\<forall>q \<in> set (sub_pqs ps). nodes q = []"
    and "render_tick L trylock now ps = Some (t, ps')"
  shows "sub_pqs ps' = sub_pqs ps"
proof -
  from sub_decode_pending_returns [of L ps]
  obtain ps1 where a: "sub_decode_pending L ps = Some ps1" by blast
  from video_decode_frame_returns [of L trylock ps1]
  obtain vret ps2 where b: "video_decode_frame L trylock ps1 = Some (vret, ps2)" by blast
  have 1: "sub_pqs ps1 = sub_pqs ps"
    using sub_decode_pending_empty [OF assms(1) a] .
  have 2: "sub_pqs ps2 = sub_pqs ps1"
    using video_decode_frame_outside [OF b] by (rule sub_pqs_outside_video)
  have 3: "sub_pqs (fst (video_sync ps2 now)) = sub_pqs ps2"
    using video_sync_outside [of ps2 now] by (rule sub_pqs_outside_video)
  show ?thesis
    using assms(2) a b 1 2 3
    by (cases "video_sync ps2 now") (auto simp: render_tick_def split: if_splits)
qed

lemma session_step_sub_pqs:
  assumes "\<forall>q \<in> set (sub_pqs ps). nodes q = []"
    and "session_step L e ps = Some ps'"
  shows "sub_pqs ps' = sub_pqs ps"
proof (cases e)
  case (EvDemux alloc)
  with assms(2) show ?thesis using demux_iter_sub_pqs [of L alloc ps] by auto
next
  case (EvAudioCallback stream len)
  with assms(2) show ?thesis
    by (auto dest!: audio_callback_outside sub_pqs_outside_audio)
next
  case (EvRenderTick trylock now)
  with assms show ?thesis
    by (auto dest: render_tick_sub_pqs)
next
  case EvPausedTick
  with assms show ?thesis
    by (auto dest: sub_decode_pending_empty)
next
  case (EvSubCycle now)
  with assms(2) show ?thesis by (auto simp: sub_cycle_sub_pqs)
next
  case (EvAudioCycle now)
  with assms(2) show ?thesis by (auto simp: audio_cycle_sub_pqs)
next
  case (EvSeek incr now)
  with assms(2) show ?thesis by (auto simp: player_seek_def Let_def)
next
  case (EvPause now)
  with assms(2) show ?thesis by (auto simp: toggle_pause_def Let_def)
qed

lemma session_run_sub_pqs:
  "\<forall>q \<in> set (sub_pqs ps). nodes q = [] \<Longrightarrow> session_run L es ps = Some ps'
     \<Longrightarrow> sub_pqs ps' = sub_pqs ps"
proof (induction es arbitrary: ps)
  case Nil
  then show ?case by simp
next
  case (Cons e es)
  from session_step_returns [of L e ps]
  obtain ps1 where s: "session_step L e ps = Some ps1" by blast
  have 1: "sub_pqs ps1 = sub_pqs ps"
    using session_step_sub_pqs [OF Cons.prems(1) s] .
  with Cons.prems(1) have "\<forall>q \<in> set (sub_pqs ps1). nodes q = []" by simp
  from Cons.IH [OF this] Cons.prems(2) s 1 show ?case by simp
qed

subsection \<open>Routing of packets\<close>

lemma demux_read_packet:
  assumes "\<not> PACKET_QUEUE_MAX <s nb_packets (video_pq ps)"
    and "\<not> PACKET_QUEUE_MAX <s nb_packets (audio_pq ps)"
    and "av_read_frame L (fmt_ctx ps) = (ReadPacket pkt, f)"
  shows "demux_read L alloc ps =
     (Continue,
      if stream_index pkt = video_stream_idx ps
      then ps\<lparr>fmt_ctx := f, video_pq := snd (pq_put (video_pq ps) pkt (fst alloc) (snd alloc))\<rparr>
      else if stream_index pkt = audio_stream_idx ps
      then ps\<lparr>fmt_ctx := f, audio_pq := snd (pq_put (audio_pq ps) pkt (fst alloc) (snd alloc))\<rparr>
      else ps\<lparr>fmt_ctx := f\<rparr>)"
  using assms by (simp add: demux_read_def)

lemma demux_read_video_pq:
  "video_pq (snd (demux_read L alloc ps)) \<noteq> video_pq ps
     \<Longrightarrow> \<exists>pkt f. av_read_frame L (fmt_ctx ps) = (ReadPacket pkt, f)
            \<and> stream_index pkt = video_stream_idx ps"
  by (auto simp: demux_read_def split: if_splits prod.splits read_result.splits)

lemma demux_read_audio_pq:
  "audio_pq (snd (demux_read L alloc ps)) \<noteq> audio_pq ps
     \<Longrightarrow> \<exists>pkt f. av_read_frame L (fmt_ctx ps) = (ReadPacket pkt, f)
            \<and> stream_index pkt = audio_stream_idx ps"
  by (auto simp: demux_read_def split: if_splits prod.splits read_result.splits)

text \<open>
  C10.  An iteration of the demux loop that reads a packet pushes it on the video queue
  when its stream index is \<open>video_stream_idx\<close>, else on the audio queue when it is
  \<open>audio_stream_idx\<close>, and else discards it: the state changes in \<open>fmt_ctx\<close> only.  The
  video (audio) queue changes in an iteration only by a packet of the video (audio)
  stream.  No iteration, and no run of the loop, writes a subtitle queue; and in a session
  that starts with empty subtitle queues every call returns and the subtitle queues stay
  as they were, so they stay empty.
\<close>

theorem demux_never_fills_sub_pqs:
  "sub_pqs (snd (demux_iter L alloc ps)) = sub_pqs ps
   \<and> sub_pqs (demux_thread_func L allocs ps) = sub_pqs ps
   \<and> (\<forall>pkt f. \<not> PACKET_QUEUE_MAX <s nb_packets (video_pq ps)
          \<and> \<not> PACKET_QUEUE_MAX <s nb_packets (audio_pq ps)
          \<and> av_read_frame L (fmt_ctx ps) = (ReadPacket pkt, f) \<longrightarrow>
        (stream_index pkt = video_stream_idx ps \<longrightarrow>
           snd (demux_read L alloc ps)
             = ps\<lparr>fmt_ctx := f, video_pq := snd (pq_put (video_pq ps) pkt (fst alloc) (snd alloc))\<rparr>)
      \<and> (stream_index pkt \<noteq> video_stream_idx ps \<and> stream_index pkt = audio_stream_idx ps \<longrightarrow>
           snd (demux_read L alloc ps)
             = ps\<lparr>fmt_ctx := f, audio_pq := snd (pq_put (audio_pq ps) pkt (fst alloc) (snd alloc))\<rparr>)
      \<and> (stream_index pkt \<noteq> video_stream_idx ps \<and> stream_index pkt \<noteq> audio_stream_idx ps \<longrightarrow>
           snd (demux_read L alloc ps) = ps\<lparr>fmt_ctx := f\<rparr>))
   \<and> (video_pq (snd (demux_read L alloc ps)) \<noteq> video_pq ps \<longrightarrow>
        (\<exists>pkt f. av_read_frame L (fmt_ctx ps) = (ReadPacket pkt, f)
           \<and> stream_index pkt = video_stream_idx ps))
   \<and> (audio_pq (snd (demux_read L alloc ps)) \<noteq> audio_pq ps \<longrightarrow>
        (\<exists>pkt f. av_read_frame L (fmt_ctx ps) = (ReadPacket pkt, f)
           \<and> stream_index pkt = audio_stream_idx ps))
   \<and> ((\<forall>q \<in> set (sub_pqs ps). nodes q = []) \<longrightarrow>
        (\<exists>ps'. session_run L es ps = Some ps' \<and> sub_pqs ps' = sub_pqs ps
           \<and> (\<forall>q \<in> set (sub_pqs ps'). nodes q = [])))"
proof (intro conjI)
  show "sub_pqs (snd (demux_iter L alloc ps)) = sub_pqs ps"
    by (rule demux_iter_sub_pqs)
  show "sub_pqs (demux_thread_func L allocs ps) = sub_pqs ps"
    by (rule demux_thread_func_sub_pqs)
  show "\<forall>pkt f. \<not> PACKET_QUEUE_MAX <s nb_packets (video_pq ps)
          \<and> \<not> PACKET_QUEUE_MAX <s nb_packets (audio_pq ps)
          \<and> av_read_frame L (fmt_ctx ps) = (ReadPacket pkt, f) \<longrightarrow>
        (stream_index pkt = video_stream_idx ps \<longrightarrow>
           snd (demux_read L alloc ps)
             = ps\<lparr>fmt_ctx := f, video_pq := snd (pq_put (video_pq ps) pkt (fst alloc) (snd alloc))\<rparr>)
      \<and> (stream_index pkt \<noteq> video_stream_idx ps \<and> stream_index pkt = audio_stream_idx ps \<longrightarrow>
           snd (demux_read L alloc ps)
             = ps\<lparr>fmt_ctx := f, audio_pq := snd (pq_put (audio_pq ps) pkt (fst alloc) (snd alloc))\<rparr>)
      \<and> (stream_index pkt \<noteq> video_stream_idx ps \<and> stream_index pkt \<noteq> audio_stream_idx ps \<longrightarrow>
           snd (demux_read L alloc ps) = ps\<lparr>fmt_ctx := f\<rparr>)"
    by (simp add: demux_read_packet)
  show "video_pq (snd (demux_read L alloc ps)) \<noteq> video_pq ps \<longrightarrow>
        (\<exists>pkt f. av_read_frame L (fmt_ctx ps) = (ReadPacket pkt, f)
           \<and> stream_index pkt = video_stream_idx ps)"
    using demux_read_video_pq [of L alloc ps] by blast
  show "audio_pq (snd (demux_read L alloc ps)) \<noteq> audio_pq ps \<longrightarrow>
        (\<exists>pkt f. av_read_frame L (fmt_ctx ps) = (ReadPacket pkt, f)
           \<and> stream_index pkt = audio_stream_idx ps)"
    using demux_read_audio_pq [of L alloc ps] by blast
  show "(\<forall>q \<in> set (sub_pqs ps). nodes q = []) \<longrightarrow>
        (\<exists>ps'. session_run L es ps = Some ps' \<and> sub_pqs ps' = sub_pqs ps
           \<and> (\<forall>q \<in> set (sub_pqs ps'). nodes q = []))"
  proof
    assume e: "\<forall>q \<in> set (sub_pqs ps). nodes q = []"
    from session_run_returns [of L es ps]
    obtain ps' where r: "session_run L es ps = Some ps'" by blast
    from session_run_sub_pqs [OF e r] e r
    show "\<exists>ps'. session_run L es ps = Some ps' \<and> sub_pqs ps' = sub_pqs ps
           \<and> (\<forall>q \<in> set (sub_pqs ps'). nodes q = [])"
      by simp
  qed
qed

theorem demux_never_fills_sub_pqs_witness:
  "av_read_frame lib0 (fmt_ctx ps_sub_on)
     = (ReadPacket \<lparr>stream_index = 2, pts = 80, duration = 40, size_pkt = 100\<rparr>, 3)
   \<and> snd (demux_read lib0 (True, True) ps_sub_on) = ps_sub_on\<lparr>fmt_ctx := 3\<rparr>
   \<and> sub_pqs (snd (demux_iter lib0 (True, True) ps_sub_on)) = replicate 16 pq_init
   \<and> sub_pqs (the (session_run lib0 [EvDemux (True, True), EvPausedTick, EvDemux (True, True)] ps_sub_on))
        = replicate 16 pq_init"
proof -
  have r: "av_read_frame lib0 (fmt_ctx ps_sub_on)
     = (ReadPacket \<lparr>stream_index = 2, pts = 80, duration = 40, size_pkt = 100\<rparr>, 3)"
    by (simp add: lib0_def ps_sub_on_def ps0_def)
  have t: "\<not> PACKET_QUEUE_MAX <s nb_packets (video_pq ps_sub_on)
          \<and> \<not> PACKET_QUEUE_MAX <s nb_packets (audio_pq ps_sub_on)"
    by (simp add: ps_sub_on_def ps0_def pq_init_def PACKET_QUEUE_MAX_def word_sless_alt)
  have i: "stream_index \<lparr>stream_index = 2, pts = 80, duration = 40, size_pkt = 100\<rparr> \<noteq> video_stream_idx ps_sub_on
     \<and> stream_index \<lparr>stream_index = 2, pts = 80, duration = 40, size_pkt = 100\<rparr> \<noteq> audio_stream_idx ps_sub_on"
    by (simp add: ps_sub_on_def ps0_def)
  have e: "\<forall>q \<in> set (sub_pqs ps_sub_on). nodes q = []"
    by (simp add: ps_sub_on_def ps0_def pq_init_def)
  have s: "sub_pqs ps_sub_on = replicate 16 pq_init"
    by (simp add: ps_sub_on_def ps0_def)
  note th = demux_never_fills_sub_pqs [of lib0 "(True, True)" ps_sub_on "[]"
        "[EvDemux (True, True), EvPausedTick, EvDemux (True, True)]"]
  from th have 1: "sub_pqs (snd (demux_iter lib0 (True, True) ps_sub_on)) = replicate 16 pq_init"
    using s by simp
  from th r t i have 2: "snd (demux_read lib0 (True, True) ps_sub_on) = ps_sub_on\<lparr>fmt_ctx := 3\<rparr>"
    by blast
  from th e obtain ps' where
    "session_run lib0 [EvDemux (True, True), EvPausedTick, EvDemux (True, True)] ps_sub_on = Some ps'"
    "sub_pqs ps' = sub_pqs ps_sub_on"
    by blast
  then have 3: "sub_pqs (the (session_run lib0 [EvDemux (True, True), EvPausedTick, EvDemux (True, True)] ps_sub_on))
        = replicate 16 pq_init"
    using s by simp
  from r 1 2 3 show ?thesis by blast
qed

subsection \<open>A/V sync of the render tick\<close>

lemma c_trunc_unit: "0 < x \<Longrightarrow> x < 1 \<Longrightarrow> 0 \<le> c_trunc (x * 1000) \<and> c_trunc (x * 1000) < 1000"
proof -
  assume a: "0 < x" "x < 1"
  then have "0 \<le> x * 1000" "x * 1000 < 1000" by simp_all
  then have "0 \<le> \<lfloor>x * 1000\<rfloor>" "\<lfloor>x * 1000\<rfloor> < 1000" by (simp_all add: floor_less_iff)
  with \<open>0 \<le> x * 1000\<close> show ?thesis by (simp add: c_trunc_def)
qed

lemma c_trunc_nonpos: "x \<le> 0 \<Longrightarrow> c_trunc (x * 1000) \<le> 0"
proof -
  assume "x \<le> 0"
  then have "x * 1000 \<le> 0" by simp
  then have "\<lceil>x * 1000\<rceil> \<le> 0" "x * 1000 < 0 \<or> x * 1000 = 0" by (simp_all add: ceiling_le_iff) linarith
  then show ?thesis by (auto simp: c_trunc_def)
qed

text \<open>
  C1 (amended).  When a frame is decoded, \<open>pts_delay\<close> is the new video clock minus the PTS
  of the previous frame, replaced by the delay of the previous frame when it is
  non-positive or at least 1 s; it becomes the new \<open>frame_last_delay\<close>, and the video
  clock the new \<open>frame_last_pts\<close>.  With an audio stream, and \<open>diff\<close> the video clock
  minus the audio clock and \<open>threshold = max(pts_delay, 0.01)\<close>, the delay is
  \<open>pts_delay + diff\<close> when \<open>diff > threshold\<close>, 0 when \<open>diff < - threshold\<close>, else \<open>pts_delay\<close>;
  without one it is \<open>pts_delay\<close>.  \<open>frame_timer\<close> advances by the delay.  The thread sleeps
  \<open>frame_timer - now\<close>, in whole milliseconds, only when that lies strictly between 0 and
  1 s, and does not sleep at all otherwise: the sleep is in 0 \<dots> 999 ms, it is the
  specification's clamp for every value below 1 s, and it is 0, not the upper bound, for
  a value of 1 s or more.
\<close>

theorem video_sync_delay:
  assumes "pts_delay = spec_pts_delay (video_clock ps) (frame_last_pts ps) (frame_last_delay ps)"
    and "delay = (if audio_stream_idx ps \<ge> 0
                  then spec_sync_delay pts_delay (video_clock ps) (audio_clock ps)
                  else pts_delay)"
    and "actual_delay = frame_timer ps + delay - now"
  shows "fst (video_sync ps now)
           = ps\<lparr>frame_last_pts := video_clock ps, frame_last_delay := pts_delay,
                 frame_timer := frame_timer ps + delay\<rparr>
       \<and> snd (video_sync ps now)
           = (if 0 < actual_delay \<and> actual_delay < 1 then Some (c_trunc (actual_delay * 1000))
              else None)
       \<and> 0 \<le> sleep_ms (snd (video_sync ps now)) \<and> sleep_ms (snd (video_sync ps now)) < 1000
       \<and> (actual_delay < 1 \<longrightarrow> sleep_ms (snd (video_sync ps now)) = spec_clamp_sleep_ms actual_delay)
       \<and> (1 \<le> actual_delay \<longrightarrow> sleep_ms (snd (video_sync ps now)) = 0)"
proof -
  have f: "fst (video_sync ps now)
           = ps\<lparr>frame_last_pts := video_clock ps, frame_last_delay := pts_delay,
                 frame_timer := frame_timer ps + delay\<rparr>"
    unfolding assms
    by (simp add: video_sync_def Let_def spec_pts_delay_def spec_sync_delay_def)
  have s: "snd (video_sync ps now)
           = (if 0 < actual_delay \<and> actual_delay < 1 then Some (c_trunc (actual_delay * 1000))
              else None)"
    unfolding assms
    by (simp add: video_sync_def Let_def spec_pts_delay_def spec_sync_delay_def)
  have b: "0 \<le> sleep_ms (snd (video_sync ps now)) \<and> sleep_ms (snd (video_sync ps now)) < 1000"
    using c_trunc_unit [of actual_delay] by (simp add: s sleep_ms_def)
  have c: "actual_delay < 1 \<longrightarrow> sleep_ms (snd (video_sync ps now)) = spec_clamp_sleep_ms actual_delay"
  proof
    assume lt: "actual_delay < 1"
    show "sleep_ms (snd (video_sync ps now)) = spec_clamp_sleep_ms actual_delay"
    proof (cases "0 < actual_delay")
      case True
      with lt c_trunc_unit [of actual_delay] show ?thesis
        by (simp add: s sleep_ms_def spec_clamp_sleep_ms_def)
    next
      case False
      with c_trunc_nonpos [of actual_delay] show ?thesis
        by (simp add: s sleep_ms_def spec_clamp_sleep_ms_def)
    qed
  qed
  have d: "1 \<le> actual_delay \<longrightarrow> sleep_ms (snd (video_sync ps now)) = 0"
    by (simp add: s sleep_ms_def)
  from f s b c d show ?thesis by blast
qed

theorem video_sync_delay_witness:
  "spec_pts_delay (video_clock ps_in_sync) (frame_last_pts ps_in_sync) (frame_last_delay ps_in_sync) = 1 / 25
   \<and> spec_sync_delay (1 / 25) (video_clock ps_in_sync) (audio_clock ps_in_sync) = 1 / 25
   \<and> frame_timer (fst (video_sync ps_in_sync (10001 / 100))) = 2501 / 25
   \<and> snd (video_sync ps_in_sync (10001 / 100)) = Some 30
   \<and> spec_clamp_sleep_ms (3 / 100) = 30"
proof -
  have p: "spec_pts_delay (video_clock ps_in_sync) (frame_last_pts ps_in_sync) (frame_last_delay ps_in_sync) = 1 / 25"
    by (simp add: spec_pts_delay_def ps_in_sync_def ps0_def)
  have d: "spec_sync_delay (1 / 25) (video_clock ps_in_sync) (audio_clock ps_in_sync) = 1 / 25"
    by (simp add: spec_sync_delay_def ps_in_sync_def ps0_def)
  have d': "1 / 25 = (if audio_stream_idx ps_in_sync \<ge> 0
                  then spec_sync_delay (1 / 25) (video_clock ps_in_sync) (audio_clock ps_in_sync)
                  else 1 / 25)"
    by (simp add: d)
  have a: "3 / 100 = frame_timer ps_in_sync + 1 / 25 - 10001 / 100"
    by (simp add: ps_in_sync_def ps0_def)
  have t: "c_trunc (3 / 100 * 1000) = 30"
    by (simp add: c_trunc_def)
  have cl: "spec_clamp_sleep_ms (3 / 100) = 30"
    by (simp add: spec_clamp_sleep_ms_def c_trunc_def)
  note th = video_sync_delay [OF p [symmetric] d' a]
  from th have 1: "fst (video_sync ps_in_sync (10001 / 100))
           = ps_in_sync\<lparr>frame_last_pts := video_clock ps_in_sync, frame_last_delay := 1 / 25,
                 frame_timer := frame_timer ps_in_sync + 1 / 25\<rparr>"
    by (rule conjunct1)
  from th have 2: "snd (video_sync ps_in_sync (10001 / 100)) = Some 30"
    using t by simp
  have 3: "frame_timer (fst (video_sync ps_in_sync (10001 / 100))) = 2501 / 25"
    unfolding 1 by (simp add: ps_in_sync_def ps0_def)
  from p d 2 3 cl show ?thesis by blast
qed

text \<open>
  C1 as stated says the sleep is clamped to [0, 1) s.  With the video 3 s ahead of the
  audio the deadline is 3.04 s away; the clamp is 999 ms, the code does not sleep.
\<close>

theorem video_sync_clamp_counterexample:
  "frame_timer (fst (video_sync ps_video_ahead 100)) - 100 = 76 / 25
   \<and> snd (video_sync ps_video_ahead 100) = None
   \<and> sleep_ms (snd (video_sync ps_video_ahead 100)) = 0
   \<and> spec_clamp_sleep_ms (76 / 25) = 999"
  by (simp add: video_sync_def Let_def ps_video_ahead_def ps0_def sleep_ms_def
      spec_clamp_sleep_ms_def c_trunc_def)

subsection \<open>The audio clock\<close>









lemma audio_decode_frame_ps_audio:
  "audio_decode_frame lib0 ps_audio = Some (8, ps_audio_decoded)"
  by (simp add: audio_decode_frame.simps pq_get.simps ps_audio_def ps_audio_decoded_def ps0_def
      lib0_def pkt_audio_def audio_frame_ready_def audio_swr_setup_def audio_buf_grow_def
      audio_clock_set_def write_front_def Let_def AUDIO_BUF_SIZE_def AV_NOPTS_VALUE_def
      av_q2d_def numeral_eq_Suc)



subsection \<open>The audio callback\<close>

lemma memset_zero_all: "length stream = nat len \<Longrightarrow> memset_zero stream len = replicate (nat len) 0"
  by (simp add: memset_zero_def map_replicate_const)

lemma mix_into_props:
  assumes mix: "\<forall>d s v. length (SDL_MixAudioFormat L d s v) = length d"
    and "length stream = nat len" "0 \<le> written" "0 < to_copy" "written + to_copy \<le> len"
  shows "length (mix_into L ps stream written to_copy) = nat len"
    and "drop (nat (written + to_copy)) (mix_into L ps stream written to_copy)
           = drop (nat (written + to_copy)) stream"
    and "take (nat written) (mix_into L ps stream written to_copy) = take (nat written) stream"
proof -
  define m where "m = SDL_MixAudioFormat L
         (take (nat to_copy) (drop (nat written) stream))
         (take (nat to_copy) (drop (nat (audio_buf_index ps)) (case audio_buf ps of None \<Rightarrow> [] | Some b \<Rightarrow> b)))
         (c_trunc (volume ps * real_of_int SDL_MIX_MAXVOLUME))"
  have lm: "length m = nat to_copy"
    using mix assms(2-5) by (simp add: m_def)
  have e: "mix_into L ps stream written to_copy
             = take (nat written) stream @ m @ drop (nat written + nat to_copy) stream"
    by (simp add: mix_into_def m_def)
  have lt: "length (take (nat written) stream) = nat written"
    using assms(2-5) by simp
  have n: "nat (written + to_copy) = nat written + nat to_copy"
    using assms(3,4) by (simp add: nat_add_distrib)
  show "length (mix_into L ps stream written to_copy) = nat len"
    unfolding e using lm assms(2-5) by (simp add: n [symmetric])
  show "drop (nat (written + to_copy)) (mix_into L ps stream written to_copy)
           = drop (nat (written + to_copy)) stream"
    unfolding e n using lm lt by simp
  show "take (nat written) (mix_into L ps stream written to_copy) = take (nat written) stream"
    unfolding e using lt by simp
qed

lemma audio_fill_tail:
  assumes mix: "\<forall>d s v. length (SDL_MixAudioFormat L d s v) = length d"
    and "audio_fill L len ps stream written = Some (ps', out, w)"
    and "length stream = nat len" "0 \<le> written" "written \<le> len"
    and "drop (nat written) stream = replicate (nat len - nat written) 0"
  shows "length out = nat len \<and> written \<le> w \<and> w \<le> len
       \<and> drop (nat w) out = replicate (nat len - nat w) 0
       \<and> take (nat written) out = take (nat written) stream"
  using assms
proof (induction L len ps stream written rule: audio_fill.induct)
  case (1 L len ps stream written)
  show ?case
  proof (cases "written < len")
    case False
    with "1.prems" show ?thesis by (simp add: audio_fill.simps [of L len ps stream written])
  next
    case True
    from audio_refill_returns [of L ps]
    obtain b ps1 where r: "audio_refill L ps = Some (b, ps1)" by blast
    show ?thesis
    proof (cases b)
      case True
      with r \<open>written < len\<close> "1.prems" show ?thesis
        by (simp add: audio_fill.simps [of L len ps stream written])
    next
      case False
      define to_copy where "to_copy =
        (if len - written > audio_buf_size ps1 - audio_buf_index ps1
         then audio_buf_size ps1 - audio_buf_index ps1 else len - written)"
      have pos: "0 < to_copy" "written + to_copy \<le> len"
        using audio_refill_data [of L ps ps1] r False \<open>written < len\<close>
        by (auto simp: to_copy_def)
      note mp = mix_into_props [OF "1.prems"(1) "1.prems"(3,4) pos, of ps1]
      have rec: "audio_fill L len (ps1\<lparr>audio_buf_index := audio_buf_index ps1 + to_copy\<rparr>)
                (mix_into L ps1 stream written to_copy) (written + to_copy) = Some (ps', out, w)"
        using r False \<open>written < len\<close> "1.prems"(2)
        by (simp add: audio_fill.simps [of L len ps stream written] Let_def to_copy_def)
      have d: "drop (nat (written + to_copy)) (mix_into L ps1 stream written to_copy)
                 = replicate (nat len - nat (written + to_copy)) 0"
      proof -
        have "drop (nat (written + to_copy)) stream
                = drop (nat to_copy) (drop (nat written) stream)"
          using "1.prems"(4) pos by (simp add: nat_add_distrib add.commute)
        also have "\<dots> = replicate (nat len - nat written - nat to_copy) 0"
          by (simp add: "1.prems"(6))
        also have "nat len - nat written - nat to_copy = nat len - nat (written + to_copy)"
          using "1.prems"(4) pos by (simp add: nat_add_distrib)
        finally show ?thesis unfolding mp(2) .
      qed
      have ih: "length out = nat len \<and> written + to_copy \<le> w \<and> w \<le> len
           \<and> drop (nat w) out = replicate (nat len - nat w) 0
           \<and> take (nat (written + to_copy)) out
               = take (nat (written + to_copy)) (mix_into L ps1 stream written to_copy)"
        using "1.prems"(1) rec mp(1) "1.prems"(4) pos d
        unfolding to_copy_def
        by (intro "1.IH" [of "(b, ps1)" b ps1, unfolded Let_def])
           (simp_all add: r False \<open>written < len\<close>)
      have "take (nat written) out = take (nat written) (take (nat (written + to_copy)) out)"
        using "1.prems"(4) pos by (simp add: min_def)
      also have "\<dots> = take (nat written) (mix_into L ps1 stream written to_copy)"
        using ih "1.prems"(4) pos by (simp add: min_def)
      finally have "take (nat written) out = take (nat written) stream"
        by (simp add: mp(3))
      with ih pos show ?thesis by simp
    qed
  qed
qed

lemma audio_decode_frame_no_data:
  assumes "nodes (audio_pq ps) = []"
    and "\<forall>fr. fst (avcodec_receive_frame L (audio_codec_ctx ps)) \<noteq> RecvFrame fr"
  shows "\<exists>ps1. audio_decode_frame L ps = Some (-1, ps1)"
proof -
  obtain rr c where rc: "avcodec_receive_frame L (audio_codec_ctx ps) = (rr, c)"
    by (cases "avcodec_receive_frame L (audio_codec_ctx ps)")
  show ?thesis
  proof (cases rr)
    case (RecvFrame fr)
    with rc assms(2) show ?thesis by auto
  next
    case RecvError
    with rc show ?thesis by (simp add: audio_decode_frame.simps [of L ps])
  next
    case RecvAgain
    with rc assms(1) pq_get_0_cases [of "audio_pq ps"] show ?thesis
      by (auto simp: audio_decode_frame.simps [of L ps])
  qed
qed

lemma audio_fill_no_data:
  assumes "audio_buf_size ps \<le> audio_buf_index ps"
    and "audio_decode_frame L ps = Some (n, ps1)" "n \<le> 0"
  shows "audio_fill L len ps stream 0 = Some (if 0 < len then ps1 else ps, stream, 0)"
  using assms by (simp add: audio_fill.simps [of L len ps stream 0] audio_refill_def)

text \<open>
  C3.  Every call of the audio callback returns (no wait is entered: the only pop is
  non-blocking), with the \<open>len\<close> bytes of the stream zeroed first.  When playback is paused
  or a seek is requested or in progress it returns at once: the stream is all zero and the
  state (decoder, resampler, audio queue and the rest) is unchanged.  Otherwise the loop
  returns the number \<open>w\<close> of bytes written, \<open>0 \<le> w \<le> len\<close>, and every byte of the stream
  from \<open>w\<close> on is zero; when the carry-over buffer is exhausted and the decoder yields no
  data (for example the audio queue is empty and the decoder has no frame), the whole
  stream is zero.  The callback writes no field outside the audio decode state.  SDL's
  mix writes exactly the bytes it is given, and the stream has \<open>len\<close> bytes.
\<close>

theorem audio_callback_silence:
  assumes "\<forall>d s v. length (SDL_MixAudioFormat L d s v) = length d"
    and "0 \<le> len" and "length stream = nat len"
  shows "\<exists>ps' out.
           audio_callback L ps stream len = Some (ps', out)
         \<and> length out = nat len
         \<and> outside_audio ps' = outside_audio ps
         \<and> (paused ps \<noteq> 0 \<or> seek_request ps \<noteq> 0 \<or> seeking ps \<noteq> 0
              \<longrightarrow> ps' = ps \<and> out = replicate (nat len) 0)
         \<and> (paused ps = 0 \<and> seek_request ps = 0 \<and> seeking ps = 0
              \<longrightarrow> (\<exists>w. audio_fill L len ps (replicate (nat len) 0) 0 = Some (ps', out, w)
                       \<and> 0 \<le> w \<and> w \<le> len
                       \<and> drop (nat w) out = replicate (nat len - nat w) 0))
         \<and> (audio_buf_size ps \<le> audio_buf_index ps
              \<and> (\<exists>n ps1. audio_decode_frame L ps = Some (n, ps1) \<and> n \<le> 0)
              \<longrightarrow> out = replicate (nat len) 0)
         \<and> (audio_buf_size ps \<le> audio_buf_index ps \<and> nodes (audio_pq ps) = []
              \<and> (\<forall>fr. fst (avcodec_receive_frame L (audio_codec_ctx ps)) \<noteq> RecvFrame fr)
              \<longrightarrow> out = replicate (nat len) 0)"
proof -
  note z = memset_zero_all [OF assms(3)]
  have nodata: "out = replicate (nat len) 0"
    if "audio_callback L ps stream len = Some (ps', out)"
      and "audio_buf_size ps \<le> audio_buf_index ps"
      and "audio_decode_frame L ps = Some (n, ps1)" "n \<le> 0"
    for ps' out n ps1
    using that audio_fill_no_data [OF that(2-4), of len "replicate (nat len) 0"]
    by (auto simp: audio_callback_def z Let_def split: if_splits)
  show ?thesis
  proof (cases "paused ps \<noteq> 0 \<or> seek_request ps \<noteq> 0 \<or> seeking ps \<noteq> 0")
    case True
    then have c: "audio_callback L ps stream len = Some (ps, replicate (nat len) 0)"
      by (auto simp: audio_callback_def z)
    show ?thesis
      using c True by (intro exI [of _ ps] exI [of _ "replicate (nat len) 0"]) auto
  next
    case False
    from audio_fill_returns [of L len ps "replicate (nat len) 0" 0]
    obtain ps' out w where f: "audio_fill L len ps (replicate (nat len) 0) 0 = Some (ps', out, w)"
      by blast
    then have c: "audio_callback L ps stream len = Some (ps', out)"
      using False by (simp add: audio_callback_def z)
    from audio_fill_tail [OF assms(1) f] assms(2)
    have t: "length out = nat len \<and> 0 \<le> w \<and> w \<le> len
       \<and> drop (nat w) out = replicate (nat len - nat w) 0"
      by simp
    have o: "outside_audio ps' = outside_audio ps"
      using audio_fill_outside [OF f] .
    have n1: "audio_buf_size ps \<le> audio_buf_index ps
              \<and> (\<exists>n ps1. audio_decode_frame L ps = Some (n, ps1) \<and> n \<le> 0)
              \<longrightarrow> out = replicate (nat len) 0"
      using nodata [OF c] by blast
    have n2: "audio_buf_size ps \<le> audio_buf_index ps \<and> nodes (audio_pq ps) = []
              \<and> (\<forall>fr. fst (avcodec_receive_frame L (audio_codec_ctx ps)) \<noteq> RecvFrame fr)
              \<longrightarrow> out = replicate (nat len) 0"
    proof
      assume a: "audio_buf_size ps \<le> audio_buf_index ps \<and> nodes (audio_pq ps) = []
              \<and> (\<forall>fr. fst (avcodec_receive_frame L (audio_codec_ctx ps)) \<noteq> RecvFrame fr)"
      then obtain ps1 where "audio_decode_frame L ps = Some (-1, ps1)"
        using audio_decode_frame_no_data [of ps L] by blast
      with a n1 show "out = replicate (nat len) 0" by force
    qed
    show ?thesis
      using c t o False f n1 n2
      by (intro exI [of _ ps'] exI [of _ out]) blast
  qed
qed

lemma audio_callback_ps_audio:
  "audio_callback lib0 ps_audio [7, 7, 7, 7, 7, 7, 7, 7, 7, 7, 7, 7] 12
     = Some (ps_audio_played, [1, 1, 1, 1, 1, 1, 1, 1, 0, 0, 0, 0])"
proof -
  have d2: "audio_decode_frame lib0
              (ps_audio_decoded\<lparr>audio_buf_size := 8, audio_buf_index := 8\<rparr>)
            = Some (-1, ps_audio_decoded\<lparr>audio_buf_size := 8, audio_buf_index := 8\<rparr>)"
    by (simp add: audio_decode_frame.simps pq_get.simps ps_audio_decoded_def ps0_def lib0_def)
  have m: "mix_into lib0 (ps_audio_decoded\<lparr>audio_buf_size := 8, audio_buf_index := 0\<rparr>)
             [0, 0, 0, 0, 0, 0, 0, 0, 0, 0, 0, 0] 0 8
           = [1, 1, 1, 1, 1, 1, 1, 1, 0, 0, 0, 0]"
    by (simp add: mix_into_def ps_audio_decoded_def ps0_def lib0_def)
  have p: "paused ps_audio = 0" "seek_request ps_audio = 0" "seeking ps_audio = 0"
    "audio_buf_index ps_audio = 0" "audio_buf_size ps_audio = 0"
    by (simp_all add: ps_audio_def ps0_def)
  have q: "audio_buf_index ps_audio_decoded = 0" "audio_buf_size ps_audio_decoded = 0"
    by (simp_all add: ps_audio_decoded_def ps0_def)
  show ?thesis
    by (simp add: audio_callback_def memset_zero_def Let_def p q audio_fill.simps audio_refill_def
        audio_decode_frame_ps_audio d2 m ps_audio_played_def)
qed

theorem audio_callback_silence_witness:
  "length [7, 7, 7, 7, 7, 7, 7, 7, 7, 7, 7, 7 :: 8 word] = nat 12
   \<and> audio_callback lib0 ps_audio [7, 7, 7, 7, 7, 7, 7, 7, 7, 7, 7, 7] 12
       = Some (ps_audio_played, [1, 1, 1, 1, 1, 1, 1, 1, 0, 0, 0, 0])
   \<and> audio_callback lib0 (ps_audio\<lparr>paused := 1\<rparr>) [7, 7, 7, 7, 7, 7, 7, 7, 7, 7, 7, 7] 12
       = Some (ps_audio\<lparr>paused := 1\<rparr>, [0, 0, 0, 0, 0, 0, 0, 0, 0, 0, 0, 0])"
proof -
  have mix: "\<forall>d s v. length (SDL_MixAudioFormat lib0 d s v) = length d"
    by (auto simp: lib0_def)
  have l: "length [7, 7, 7, 7, 7, 7, 7, 7, 7, 7, 7, 7 :: 8 word] = nat 12"
    by simp
  have p: "paused (ps_audio\<lparr>paused := 1\<rparr>) \<noteq> 0"
    by simp
  from audio_callback_silence [OF mix _ l, of "ps_audio\<lparr>paused := 1\<rparr>"] p
  have "audio_callback lib0 (ps_audio\<lparr>paused := 1\<rparr>) [7, 7, 7, 7, 7, 7, 7, 7, 7, 7, 7, 7] 12
       = Some (ps_audio\<lparr>paused := 1\<rparr>, replicate (nat 12) 0)"
    by auto
  then have "audio_callback lib0 (ps_audio\<lparr>paused := 1\<rparr>) [7, 7, 7, 7, 7, 7, 7, 7, 7, 7, 7, 7] 12
       = Some (ps_audio\<lparr>paused := 1\<rparr>, [0, 0, 0, 0, 0, 0, 0, 0, 0, 0, 0, 0])"
    by (simp add: numeral_eq_Suc)
  with l audio_callback_ps_audio show ?thesis by blast
qed

subsection \<open>Track cycling\<close>

lemma c_rem_nonneg: "0 \<le> a \<Longrightarrow> 0 < b \<Longrightarrow> c_rem a b = a mod b"
  by (cases "a = 0") (simp_all add: c_rem_def)

lemma sub_open_codec_keeps:
  "sub_selection (snd (sub_open_codec L ps i)) = sub_selection ps
   \<and> sub_count (snd (sub_open_codec L ps i)) = sub_count ps
   \<and> seek_request (snd (sub_open_codec L ps i)) = seek_request ps
   \<and> seek_target (snd (sub_open_codec L ps i)) = seek_target ps
   \<and> seek_flags (snd (sub_open_codec L ps i)) = seek_flags ps"
  by (simp add: sub_open_codec_def sub_close_codec_def Let_def split: prod.splits)

lemma sub_cycle_step:
  assumes "0 \<le> sub_selection ps" and "sub_selection ps \<le> sub_count ps"
  shows "sub_selection (sub_cycle L ps now) = (sub_selection ps + 1) mod (sub_count ps + 1)"
    and "sub_count (sub_cycle L ps now) = sub_count ps"
    and "seek_request (sub_cycle L ps now) = seek_request ps"
    and "seek_target (sub_cycle L ps now) = seek_target ps"
    and "seek_flags (sub_cycle L ps now) = seek_flags ps"
proof -
  have r: "c_rem (sub_selection ps + 1) (sub_count ps + 1) = (sub_selection ps + 1) mod (sub_count ps + 1)"
    using assms by (intro c_rem_nonneg) simp_all
  have z: "sub_count ps = 0 \<Longrightarrow> sub_selection ps = 0"
    using assms by simp
  show "sub_selection (sub_cycle L ps now) = (sub_selection ps + 1) mod (sub_count ps + 1)"
    using z by (simp add: sub_cycle_def Let_def r sub_open_codec_keeps sub_close_codec_def)
  show "sub_count (sub_cycle L ps now) = sub_count ps"
    by (simp add: sub_cycle_def Let_def sub_open_codec_keeps sub_close_codec_def)
  show "seek_request (sub_cycle L ps now) = seek_request ps"
    by (simp add: sub_cycle_def Let_def sub_open_codec_keeps sub_close_codec_def)
  show "seek_target (sub_cycle L ps now) = seek_target ps"
    by (simp add: sub_cycle_def Let_def sub_open_codec_keeps sub_close_codec_def)
  show "seek_flags (sub_cycle L ps now) = seek_flags ps"
    by (simp add: sub_cycle_def Let_def sub_open_codec_keeps sub_close_codec_def)
qed

lemma sub_cycle_clears:
  "sub_count ps \<noteq> 0 \<Longrightarrow> sub_valid (sub_cycle L ps now) = 0 \<and> sub_text (sub_cycle L ps now) = []"
  by (simp add: sub_cycle_def Let_def sub_close_codec_def)

lemma sub_cycle_off:
  assumes "0 \<le> sub_selection ps" and "sub_selection ps = sub_count ps" and "sub_count ps \<noteq> 0"
  shows "sub_selection (sub_cycle L ps now) = 0 \<and> sub_codec_ctx (sub_cycle L ps now) = None
       \<and> sub_active_idx (sub_cycle L ps now) = -1"
proof -
  have "c_rem (sub_selection ps + 1) (sub_count ps + 1) = 0"
    using assms by (simp add: c_rem_nonneg)
  then show ?thesis
    using assms(3) by (simp add: sub_cycle_def Let_def sub_close_codec_def)
qed

lemma sub_cycle_times_step:
  assumes "0 \<le> sub_selection ps" and "sub_selection ps \<le> sub_count ps"
  shows "sub_selection (sub_cycle_times L ps nows)
           = (sub_selection ps + int (length nows)) mod (sub_count ps + 1)
       \<and> sub_count (sub_cycle_times L ps nows) = sub_count ps
       \<and> seek_request (sub_cycle_times L ps nows) = seek_request ps"
  using assms
proof (induction nows arbitrary: ps)
  case Nil
  then show ?case by simp
next
  case (Cons now nows)
  note s = sub_cycle_step [OF Cons.prems, of L now]
  have c: "0 \<le> sub_count ps" using Cons.prems by simp
  have 1: "0 \<le> sub_selection (sub_cycle L ps now)"
    using c by (simp add: s(1))
  have 2: "sub_selection (sub_cycle L ps now) \<le> sub_count (sub_cycle L ps now)"
    using c pos_mod_bound [of "sub_count ps + 1" "sub_selection ps + 1"] by (simp add: s(1,2))
  have "((sub_selection ps + 1) mod (sub_count ps + 1) + int (length nows)) mod (sub_count ps + 1)
          = ((sub_selection ps + 1) + int (length nows)) mod (sub_count ps + 1)"
    by (rule mod_add_left_eq)
  also have "(sub_selection ps + 1) + int (length nows) = sub_selection ps + int (length (now # nows))"
    by simp
  finally have "((sub_selection ps + 1) mod (sub_count ps + 1) + int (length nows)) mod (sub_count ps + 1)
          = (sub_selection ps + int (length (now # nows))) mod (sub_count ps + 1)" .
  with Cons.IH [OF 1 2] show ?case by (simp only: sub_cycle_times.simps s)
qed

text \<open>
  C9.  With a catalogue of N subtitle tracks and the selection in 0 \<dots> N (0 is Off), one
  cycle makes the selection \<open>(selection + 1) mod (N + 1)\<close>, and so do any number of cycles
  in a row: Off, track 1, \<dots>, track N, Off.  No cycle writes the seek request, its target
  or its flags.  With at least one track every cycle clears the displayed cue
  (\<open>sub_valid\<close> is 0 and the text is empty), and the cycle from track N to Off closes the
  codec; with no track the cycle only posts the notice.
\<close>

theorem sub_cycle_cyclic:
  assumes "0 \<le> sub_selection ps" and "sub_selection ps \<le> sub_count ps"
  shows "sub_selection (sub_cycle L ps now) = (sub_selection ps + 1) mod (sub_count ps + 1)
       \<and> sub_selection (sub_cycle_times L ps nows)
           = (sub_selection ps + int (length nows)) mod (sub_count ps + 1)
       \<and> seek_request (sub_cycle L ps now) = seek_request ps
       \<and> seek_target (sub_cycle L ps now) = seek_target ps
       \<and> seek_flags (sub_cycle L ps now) = seek_flags ps
       \<and> seek_request (sub_cycle_times L ps nows) = seek_request ps
       \<and> (sub_count ps \<noteq> 0 \<longrightarrow>
            sub_valid (sub_cycle L ps now) = 0 \<and> sub_text (sub_cycle L ps now) = [])
       \<and> (sub_count ps \<noteq> 0 \<and> sub_selection ps = sub_count ps \<longrightarrow>
            sub_selection (sub_cycle L ps now) = 0 \<and> sub_codec_ctx (sub_cycle L ps now) = None
            \<and> sub_active_idx (sub_cycle L ps now) = -1)
       \<and> (sub_count ps = 0 \<longrightarrow>
            sub_cycle L ps now
              = ps\<lparr>sub_osd := osd_text ''No subtitles available'', sub_osd_until := now + 2\<rparr>)"
  using sub_cycle_step [OF assms, of L now] sub_cycle_times_step [OF assms, of L nows]
    sub_cycle_clears [of ps L now] sub_cycle_off [OF assms(1), of L now]
  by (simp add: sub_cycle_def)

theorem sub_cycle_cyclic_witness:
  "sub_selection ps0 = 0 \<and> sub_count ps0 = 2
   \<and> sub_selection (sub_cycle lib0 ps0 10) = 1
   \<and> sub_selection (sub_cycle_times lib0 ps0 [10, 11]) = 2
   \<and> sub_selection (sub_cycle_times lib0 ps0 [10, 11, 12]) = 0
   \<and> seek_request (sub_cycle_times lib0 ps0 [10, 11, 12]) = 0"
proof -
  have a: "0 \<le> sub_selection ps0" "sub_selection ps0 \<le> sub_count ps0"
    and v: "sub_selection ps0 = 0" "sub_count ps0 = 2" "seek_request ps0 = 0"
    by (simp_all add: ps0_def)
  from sub_cycle_cyclic [OF a, of lib0 10 "[10, 11]"] sub_cycle_cyclic [OF a, of lib0 10 "[10, 11, 12]"] v
  show ?thesis by simp
qed

lemma audio_open_keeps:
  "aud_selection (snd (audio_open L ps)) = aud_selection ps
   \<and> aud_count (snd (audio_open L ps)) = aud_count ps
   \<and> aud_stream_indices (snd (audio_open L ps)) = aud_stream_indices ps
   \<and> fmt_ctx (snd (audio_open L ps)) = fmt_ctx ps"
  by (simp add: audio_open_def Let_def split: option.splits prod.splits)

lemma audio_cycle_keeps:
  "aud_count (audio_cycle L ps now) = aud_count ps
   \<and> aud_stream_indices (audio_cycle L ps now) = aud_stream_indices ps
   \<and> fmt_ctx (audio_cycle L ps now) = fmt_ctx ps"
  by (simp add: audio_cycle_def Let_def audio_open_keeps audio_close_def split: prod.splits)

lemma audio_cycle_noop:
  "aud_count ps \<le> 1 \<Longrightarrow>
     audio_cycle L ps now
       = ps\<lparr>aud_osd := osd_text (if aud_count ps = 0 then ''No audio tracks''
                                   else ''Only one audio track''),
             aud_osd_until := now + 2\<rparr>"
  by (simp add: audio_cycle_def)

lemma audio_cycle_fail:
  assumes "2 \<le> aud_count ps"
    and "\<not> avcodec_find_decoder L (fmt_ctx ps)
             (aud_stream_indices ps ! nat (c_rem (aud_selection ps + 1) (aud_count ps)))
         \<or> fst (avcodec_open2 L (fmt_ctx ps)
             (aud_stream_indices ps ! nat (c_rem (aud_selection ps + 1) (aud_count ps)))) < 0"
  shows "aud_selection (audio_cycle L ps now) = aud_selection ps
       \<and> audio_stream_idx (audio_cycle L ps now) = audio_stream_idx ps
       \<and> audio_codec_ctx (audio_cycle L ps now) = None
       \<and> seek_request (audio_cycle L ps now) = seek_request ps"
  using assms by (auto simp: audio_cycle_def Let_def split: prod.splits)

lemma audio_cycle_ok:
  assumes "2 \<le> aud_count ps"
    and "avcodec_find_decoder L (fmt_ctx ps)
             (aud_stream_indices ps ! nat (c_rem (aud_selection ps + 1) (aud_count ps)))"
    and "0 \<le> fst (avcodec_open2 L (fmt_ctx ps)
             (aud_stream_indices ps ! nat (c_rem (aud_selection ps + 1) (aud_count ps))))"
  shows "aud_selection (audio_cycle L ps now) = c_rem (aud_selection ps + 1) (aud_count ps)
       \<and> audio_stream_idx (audio_cycle L ps now)
           = aud_stream_indices ps ! nat (c_rem (aud_selection ps + 1) (aud_count ps))
       \<and> seek_request (audio_cycle L ps now) = 1"
  using assms
  by (auto simp: audio_cycle_def Let_def audio_open_keeps audio_close_def split: prod.splits)

lemma audio_cycle_times_keeps:
  "aud_count (audio_cycle_times L ps nows) = aud_count ps
   \<and> aud_stream_indices (audio_cycle_times L ps nows) = aud_stream_indices ps
   \<and> fmt_ctx (audio_cycle_times L ps nows) = fmt_ctx ps"
  by (induction nows arbitrary: ps) (simp_all add: audio_cycle_keeps)

lemma audio_cycle_times_append:
  "audio_cycle_times L ps (xs @ ys) = audio_cycle_times L (audio_cycle_times L ps xs) ys"
  by (induction xs arbitrary: ps) simp_all

lemma audio_cycle_times_switched:
  assumes "0 \<le> aud_selection ps" and "aud_selection ps < aud_count ps"
    and "2 \<le> aud_count ps \<longrightarrow>
         (\<forall>j. 1 \<le> j \<and> j \<le> int (length nows) \<longrightarrow>
           avcodec_find_decoder L (fmt_ctx ps)
             (aud_stream_indices ps ! nat ((aud_selection ps + j) mod aud_count ps))
         \<and> 0 \<le> fst (avcodec_open2 L (fmt_ctx ps)
             (aud_stream_indices ps ! nat ((aud_selection ps + j) mod aud_count ps))))"
  shows "aud_selection (audio_cycle_times L ps nows)
           = (aud_selection ps + int (length nows)) mod aud_count ps"
  using assms
proof (induction nows arbitrary: ps)
  case Nil
  then show ?case by simp
next
  case (Cons now nows)
  note k = audio_cycle_keeps [of L ps now]
  have sel: "aud_selection (audio_cycle L ps now) = (aud_selection ps + 1) mod aud_count ps"
  proof (cases "aud_count ps \<le> 1")
    case True
    with Cons.prems(1,2) have "aud_selection ps = 0" "aud_count ps = 1" by simp_all
    then show ?thesis by (simp add: audio_cycle_noop)
  next
    case False
    then have c: "2 \<le> aud_count ps" by simp
    have r: "c_rem (aud_selection ps + 1) (aud_count ps) = (aud_selection ps + 1) mod aud_count ps"
      using Cons.prems(1) c by (intro c_rem_nonneg) simp_all
    from Cons.prems(3) c
    have "avcodec_find_decoder L (fmt_ctx ps)
            (aud_stream_indices ps ! nat ((aud_selection ps + 1) mod aud_count ps))
        \<and> 0 \<le> fst (avcodec_open2 L (fmt_ctx ps)
            (aud_stream_indices ps ! nat ((aud_selection ps + 1) mod aud_count ps)))"
      by simp
    with audio_cycle_ok [OF c, of L now] r show ?thesis by simp
  qed
  have pos: "0 < aud_count ps" using Cons.prems(1,2) by simp
  have 1: "0 \<le> aud_selection (audio_cycle L ps now)"
    using pos by (simp add: sel)
  have 2: "aud_selection (audio_cycle L ps now) < aud_count (audio_cycle L ps now)"
    using pos by (simp add: sel k)
  have sh: "((aud_selection ps + 1) mod aud_count ps + j) mod aud_count ps
              = (aud_selection ps + (j + 1)) mod aud_count ps" for j
  proof -
    have "((aud_selection ps + 1) mod aud_count ps + j) mod aud_count ps
            = ((aud_selection ps + 1) + j) mod aud_count ps"
      by (rule mod_add_left_eq)
    also have "(aud_selection ps + 1) + j = aud_selection ps + (j + 1)" by simp
    finally show ?thesis .
  qed
  have 3: "2 \<le> aud_count (audio_cycle L ps now) \<longrightarrow>
         (\<forall>j. 1 \<le> j \<and> j \<le> int (length nows) \<longrightarrow>
           avcodec_find_decoder L (fmt_ctx (audio_cycle L ps now))
             (aud_stream_indices (audio_cycle L ps now)
                ! nat ((aud_selection (audio_cycle L ps now) + j) mod aud_count (audio_cycle L ps now)))
         \<and> 0 \<le> fst (avcodec_open2 L (fmt_ctx (audio_cycle L ps now))
             (aud_stream_indices (audio_cycle L ps now)
                ! nat ((aud_selection (audio_cycle L ps now) + j) mod aud_count (audio_cycle L ps now)))))"
  proof (intro impI allI)
    fix j :: int
    assume c: "2 \<le> aud_count (audio_cycle L ps now)" and j: "1 \<le> j \<and> j \<le> int (length nows)"
    then have "1 \<le> j + 1 \<and> j + 1 \<le> int (length (now # nows))" by simp
    moreover from c have "2 \<le> aud_count ps" by (simp add: k)
    ultimately
    have "avcodec_find_decoder L (fmt_ctx ps)
             (aud_stream_indices ps ! nat ((aud_selection ps + (j + 1)) mod aud_count ps))
         \<and> 0 \<le> fst (avcodec_open2 L (fmt_ctx ps)
             (aud_stream_indices ps ! nat ((aud_selection ps + (j + 1)) mod aud_count ps)))"
      using Cons.prems(3) by blast
    then show "avcodec_find_decoder L (fmt_ctx (audio_cycle L ps now))
             (aud_stream_indices (audio_cycle L ps now)
                ! nat ((aud_selection (audio_cycle L ps now) + j) mod aud_count (audio_cycle L ps now)))
         \<and> 0 \<le> fst (avcodec_open2 L (fmt_ctx (audio_cycle L ps now))
             (aud_stream_indices (audio_cycle L ps now)
                ! nat ((aud_selection (audio_cycle L ps now) + j) mod aud_count (audio_cycle L ps now))))"
      by (simp only: k sel sh)
  qed
  have m: "((aud_selection ps + 1) mod aud_count ps + int (length nows)) mod aud_count ps
          = (aud_selection ps + int (length (now # nows))) mod aud_count ps"
    using sh [of "int (length nows)"] by (simp add: add.commute)
  from Cons.IH [OF 1 2 3] m show ?case
    by (simp only: audio_cycle_times.simps sel k)
qed

lemma audio_cycle_times_stuck:
  assumes "0 \<le> aud_selection ps" and "2 \<le> aud_count ps"
    and "\<not> avcodec_find_decoder L (fmt_ctx ps)
             (aud_stream_indices ps ! nat ((aud_selection ps + 1) mod aud_count ps))
         \<or> fst (avcodec_open2 L (fmt_ctx ps)
             (aud_stream_indices ps ! nat ((aud_selection ps + 1) mod aud_count ps))) < 0"
  shows "aud_selection (audio_cycle_times L ps nows) = aud_selection ps"
  using assms
proof (induction nows arbitrary: ps)
  case Nil
  then show ?case by simp
next
  case (Cons now nows)
  note k = audio_cycle_keeps [of L ps now]
  have r: "c_rem (aud_selection ps + 1) (aud_count ps) = (aud_selection ps + 1) mod aud_count ps"
    using Cons.prems(1,2) by (intro c_rem_nonneg) simp_all
  from audio_cycle_fail [OF Cons.prems(2), of L now] Cons.prems(3) r
  have s: "aud_selection (audio_cycle L ps now) = aud_selection ps" by simp
  have "aud_selection (audio_cycle_times L (audio_cycle L ps now) nows)
          = aud_selection (audio_cycle L ps now)"
    by (rule Cons.IH) (simp_all only: k s Cons.prems)
  then show ?case by (simp add: s)
qed

lemma audio_cycle_times_blocked:
  assumes "0 \<le> aud_selection ps" and "aud_selection ps < aud_count ps" and "2 \<le> aud_count ps"
    and "k < length nows"
    and "\<forall>j. 1 \<le> j \<and> j \<le> int k \<longrightarrow>
           avcodec_find_decoder L (fmt_ctx ps)
             (aud_stream_indices ps ! nat ((aud_selection ps + j) mod aud_count ps))
         \<and> 0 \<le> fst (avcodec_open2 L (fmt_ctx ps)
             (aud_stream_indices ps ! nat ((aud_selection ps + j) mod aud_count ps)))"
    and "\<not> avcodec_find_decoder L (fmt_ctx ps)
             (aud_stream_indices ps ! nat ((aud_selection ps + int k + 1) mod aud_count ps))
         \<or> fst (avcodec_open2 L (fmt_ctx ps)
             (aud_stream_indices ps ! nat ((aud_selection ps + int k + 1) mod aud_count ps))) < 0"
  shows "aud_selection (audio_cycle_times L ps nows) = (aud_selection ps + int k) mod aud_count ps"
proof -
  define ps1 where "ps1 = audio_cycle_times L ps (take k nows)"
  have l: "length (take k nows) = k" using assms(4) by simp
  have s: "aud_selection ps1 = (aud_selection ps + int k) mod aud_count ps"
    unfolding ps1_def
    using audio_cycle_times_switched [OF assms(1,2), of "take k nows" L] assms(5)
    by (simp only: l) blast
  note k = audio_cycle_times_keeps [of L ps "take k nows", folded ps1_def]
  have c: "aud_count ps1 = aud_count ps" "aud_stream_indices ps1 = aud_stream_indices ps"
    "fmt_ctx ps1 = fmt_ctx ps"
    using k by simp_all
  have m: "((aud_selection ps + int k) mod aud_count ps + 1) mod aud_count ps
             = (aud_selection ps + int k + 1) mod aud_count ps"
    by (rule mod_add_left_eq)
  have 1: "0 \<le> aud_selection ps1" using assms(3) by (simp add: s)
  have 2: "2 \<le> aud_count ps1" using assms(3) by (simp add: c)
  have 3: "\<not> avcodec_find_decoder L (fmt_ctx ps1)
             (aud_stream_indices ps1 ! nat ((aud_selection ps1 + 1) mod aud_count ps1))
         \<or> fst (avcodec_open2 L (fmt_ctx ps1)
             (aud_stream_indices ps1 ! nat ((aud_selection ps1 + 1) mod aud_count ps1))) < 0"
    using assms(6) by (simp only: c s m)
  have "audio_cycle_times L ps nows = audio_cycle_times L ps1 (drop k nows)"
    unfolding ps1_def audio_cycle_times_append [symmetric] by simp
  with audio_cycle_times_stuck [OF 1 2 3, of "drop k nows"] s show ?thesis by simp
qed

text \<open>
  C8 (amended).  With the selection inside a catalogue of at least one audio track,
  cycling N times makes the selection \<open>(initial + N) mod track_count\<close> when a decoder is
  found and opens for each of the N tracks switched to (the tracks
  \<open>(initial + j) mod track_count\<close>, \<open>j = 1 \<dots> N\<close>); when it does so for the first \<open>k < N\<close> of
  them and not for the next, the selection stays \<open>(initial + k) mod track_count\<close>.  The
  catalogue is not changed by cycling.  One cycle over at least two tracks, when the
  decoder of the next track opens, selects that track, makes its stream the audio stream
  and raises the seek request; when there is no decoder for the next track or it does
  not open, the cycle returns early: the selection and the audio stream stay as they
  were and no audio codec is open.  With zero or one track a cycle changes nothing but
  the notice and its expiry time.
\<close>

theorem audio_cycle_index:
  assumes "0 \<le> aud_selection ps"
    and "aud_selection ps < aud_count ps \<or> aud_count ps = 0"
  shows "(1 \<le> aud_count ps
          \<and> (2 \<le> aud_count ps \<longrightarrow>
               (\<forall>j. 1 \<le> j \<and> j \<le> int (length nows) \<longrightarrow>
                  avcodec_find_decoder L (fmt_ctx ps)
                    (aud_stream_indices ps ! nat ((aud_selection ps + j) mod aud_count ps))
                \<and> 0 \<le> fst (avcodec_open2 L (fmt_ctx ps)
                    (aud_stream_indices ps ! nat ((aud_selection ps + j) mod aud_count ps)))))
          \<longrightarrow> aud_selection (audio_cycle_times L ps nows)
                = (aud_selection ps + int (length nows)) mod aud_count ps)
       \<and> (\<forall>k. 2 \<le> aud_count ps \<and> k < length nows
              \<and> (\<forall>j. 1 \<le> j \<and> j \<le> int k \<longrightarrow>
                    avcodec_find_decoder L (fmt_ctx ps)
                      (aud_stream_indices ps ! nat ((aud_selection ps + j) mod aud_count ps))
                  \<and> 0 \<le> fst (avcodec_open2 L (fmt_ctx ps)
                      (aud_stream_indices ps ! nat ((aud_selection ps + j) mod aud_count ps))))
              \<and> (\<not> avcodec_find_decoder L (fmt_ctx ps)
                      (aud_stream_indices ps ! nat ((aud_selection ps + int k + 1) mod aud_count ps))
                  \<or> fst (avcodec_open2 L (fmt_ctx ps)
                      (aud_stream_indices ps ! nat ((aud_selection ps + int k + 1) mod aud_count ps))) < 0)
              \<longrightarrow> aud_selection (audio_cycle_times L ps nows)
                    = (aud_selection ps + int k) mod aud_count ps)
       \<and> aud_count (audio_cycle_times L ps nows) = aud_count ps
       \<and> aud_stream_indices (audio_cycle_times L ps nows) = aud_stream_indices ps
       \<and> fmt_ctx (audio_cycle_times L ps nows) = fmt_ctx ps
       \<and> (2 \<le> aud_count ps
          \<and> avcodec_find_decoder L (fmt_ctx ps)
               (aud_stream_indices ps ! nat ((aud_selection ps + 1) mod aud_count ps))
          \<and> 0 \<le> fst (avcodec_open2 L (fmt_ctx ps)
               (aud_stream_indices ps ! nat ((aud_selection ps + 1) mod aud_count ps)))
          \<longrightarrow> aud_selection (audio_cycle L ps now) = (aud_selection ps + 1) mod aud_count ps
              \<and> audio_stream_idx (audio_cycle L ps now)
                  = aud_stream_indices ps ! nat ((aud_selection ps + 1) mod aud_count ps)
              \<and> seek_request (audio_cycle L ps now) = 1)
       \<and> (2 \<le> aud_count ps
          \<and> (\<not> avcodec_find_decoder L (fmt_ctx ps)
                 (aud_stream_indices ps ! nat ((aud_selection ps + 1) mod aud_count ps))
             \<or> fst (avcodec_open2 L (fmt_ctx ps)
                 (aud_stream_indices ps ! nat ((aud_selection ps + 1) mod aud_count ps))) < 0)
          \<longrightarrow> aud_selection (audio_cycle L ps now) = aud_selection ps
              \<and> audio_stream_idx (audio_cycle L ps now) = audio_stream_idx ps
              \<and> audio_codec_ctx (audio_cycle L ps now) = None
              \<and> seek_request (audio_cycle L ps now) = seek_request ps)
       \<and> (aud_count ps \<le> 1
          \<longrightarrow> audio_cycle L ps now
                = ps\<lparr>aud_osd := osd_text (if aud_count ps = 0 then ''No audio tracks''
                                            else ''Only one audio track''),
                      aud_osd_until := now + 2\<rparr>)"
proof -
  have 1: "1 \<le> aud_count ps
          \<and> (2 \<le> aud_count ps \<longrightarrow>
               (\<forall>j. 1 \<le> j \<and> j \<le> int (length nows) \<longrightarrow>
                  avcodec_find_decoder L (fmt_ctx ps)
                    (aud_stream_indices ps ! nat ((aud_selection ps + j) mod aud_count ps))
                \<and> 0 \<le> fst (avcodec_open2 L (fmt_ctx ps)
                    (aud_stream_indices ps ! nat ((aud_selection ps + j) mod aud_count ps)))))
          \<longrightarrow> aud_selection (audio_cycle_times L ps nows)
                = (aud_selection ps + int (length nows)) mod aud_count ps"
  proof (rule impI)
    assume a: "1 \<le> aud_count ps
          \<and> (2 \<le> aud_count ps \<longrightarrow>
               (\<forall>j. 1 \<le> j \<and> j \<le> int (length nows) \<longrightarrow>
                  avcodec_find_decoder L (fmt_ctx ps)
                    (aud_stream_indices ps ! nat ((aud_selection ps + j) mod aud_count ps))
                \<and> 0 \<le> fst (avcodec_open2 L (fmt_ctx ps)
                    (aud_stream_indices ps ! nat ((aud_selection ps + j) mod aud_count ps)))))"
    with assms(2) have "aud_selection ps < aud_count ps" by auto
    from audio_cycle_times_switched [OF assms(1) this, of nows L] a
    show "aud_selection (audio_cycle_times L ps nows)
                = (aud_selection ps + int (length nows)) mod aud_count ps"
      by blast
  qed
  have 2: "\<forall>k. 2 \<le> aud_count ps \<and> k < length nows
              \<and> (\<forall>j. 1 \<le> j \<and> j \<le> int k \<longrightarrow>
                    avcodec_find_decoder L (fmt_ctx ps)
                      (aud_stream_indices ps ! nat ((aud_selection ps + j) mod aud_count ps))
                  \<and> 0 \<le> fst (avcodec_open2 L (fmt_ctx ps)
                      (aud_stream_indices ps ! nat ((aud_selection ps + j) mod aud_count ps))))
              \<and> (\<not> avcodec_find_decoder L (fmt_ctx ps)
                      (aud_stream_indices ps ! nat ((aud_selection ps + int k + 1) mod aud_count ps))
                  \<or> fst (avcodec_open2 L (fmt_ctx ps)
                      (aud_stream_indices ps ! nat ((aud_selection ps + int k + 1) mod aud_count ps))) < 0)
              \<longrightarrow> aud_selection (audio_cycle_times L ps nows)
                    = (aud_selection ps + int k) mod aud_count ps"
  proof (intro allI impI)
    fix k
    assume a: "2 \<le> aud_count ps \<and> k < length nows
              \<and> (\<forall>j. 1 \<le> j \<and> j \<le> int k \<longrightarrow>
                    avcodec_find_decoder L (fmt_ctx ps)
                      (aud_stream_indices ps ! nat ((aud_selection ps + j) mod aud_count ps))
                  \<and> 0 \<le> fst (avcodec_open2 L (fmt_ctx ps)
                      (aud_stream_indices ps ! nat ((aud_selection ps + j) mod aud_count ps))))
              \<and> (\<not> avcodec_find_decoder L (fmt_ctx ps)
                      (aud_stream_indices ps ! nat ((aud_selection ps + int k + 1) mod aud_count ps))
                  \<or> fst (avcodec_open2 L (fmt_ctx ps)
                      (aud_stream_indices ps ! nat ((aud_selection ps + int k + 1) mod aud_count ps))) < 0)"
    with assms(2) have s: "aud_selection ps < aud_count ps" by auto
    from a have c: "2 \<le> aud_count ps" and k: "k < length nows" by simp_all
    show "aud_selection (audio_cycle_times L ps nows)
                    = (aud_selection ps + int k) mod aud_count ps"
      by (rule audio_cycle_times_blocked [OF assms(1) s c k]) (use a in blast)+
  qed
  note 3 = audio_cycle_times_keeps [of L ps nows]
  have 4: "2 \<le> aud_count ps
          \<and> avcodec_find_decoder L (fmt_ctx ps)
               (aud_stream_indices ps ! nat ((aud_selection ps + 1) mod aud_count ps))
          \<and> 0 \<le> fst (avcodec_open2 L (fmt_ctx ps)
               (aud_stream_indices ps ! nat ((aud_selection ps + 1) mod aud_count ps)))
          \<longrightarrow> aud_selection (audio_cycle L ps now) = (aud_selection ps + 1) mod aud_count ps
              \<and> audio_stream_idx (audio_cycle L ps now)
                  = aud_stream_indices ps ! nat ((aud_selection ps + 1) mod aud_count ps)
              \<and> seek_request (audio_cycle L ps now) = 1"
  proof (rule impI)
    assume a: "2 \<le> aud_count ps
          \<and> avcodec_find_decoder L (fmt_ctx ps)
               (aud_stream_indices ps ! nat ((aud_selection ps + 1) mod aud_count ps))
          \<and> 0 \<le> fst (avcodec_open2 L (fmt_ctx ps)
               (aud_stream_indices ps ! nat ((aud_selection ps + 1) mod aud_count ps)))"
    have r: "c_rem (aud_selection ps + 1) (aud_count ps) = (aud_selection ps + 1) mod aud_count ps"
      using assms(1) a by (intro c_rem_nonneg) simp_all
    from a audio_cycle_ok [of ps L now] r
    show "aud_selection (audio_cycle L ps now) = (aud_selection ps + 1) mod aud_count ps
       \<and> audio_stream_idx (audio_cycle L ps now)
           = aud_stream_indices ps ! nat ((aud_selection ps + 1) mod aud_count ps)
       \<and> seek_request (audio_cycle L ps now) = 1"
      by simp
  qed
  have 5: "2 \<le> aud_count ps
          \<and> (\<not> avcodec_find_decoder L (fmt_ctx ps)
                 (aud_stream_indices ps ! nat ((aud_selection ps + 1) mod aud_count ps))
             \<or> fst (avcodec_open2 L (fmt_ctx ps)
                 (aud_stream_indices ps ! nat ((aud_selection ps + 1) mod aud_count ps))) < 0)
          \<longrightarrow> aud_selection (audio_cycle L ps now) = aud_selection ps
              \<and> audio_stream_idx (audio_cycle L ps now) = audio_stream_idx ps
              \<and> audio_codec_ctx (audio_cycle L ps now) = None
              \<and> seek_request (audio_cycle L ps now) = seek_request ps"
  proof (rule impI)
    assume a: "2 \<le> aud_count ps
          \<and> (\<not> avcodec_find_decoder L (fmt_ctx ps)
                 (aud_stream_indices ps ! nat ((aud_selection ps + 1) mod aud_count ps))
             \<or> fst (avcodec_open2 L (fmt_ctx ps)
                 (aud_stream_indices ps ! nat ((aud_selection ps + 1) mod aud_count ps))) < 0)"
    have r: "c_rem (aud_selection ps + 1) (aud_count ps) = (aud_selection ps + 1) mod aud_count ps"
      using assms(1) a by (intro c_rem_nonneg) simp_all
    from a audio_cycle_fail [of ps L now] r
    show "aud_selection (audio_cycle L ps now) = aud_selection ps
       \<and> audio_stream_idx (audio_cycle L ps now) = audio_stream_idx ps
       \<and> audio_codec_ctx (audio_cycle L ps now) = None
       \<and> seek_request (audio_cycle L ps now) = seek_request ps"
      by simp
  qed
  have 6: "aud_count ps \<le> 1
          \<longrightarrow> audio_cycle L ps now
                = ps\<lparr>aud_osd := osd_text (if aud_count ps = 0 then ''No audio tracks''
                                            else ''Only one audio track''),
                      aud_osd_until := now + 2\<rparr>"
    by (rule impI) (rule audio_cycle_noop)
  show ?thesis
    by (rule conjI [OF 1 conjI [OF 2 conjI [OF conjunct1 [OF 3] conjI [OF conjunct1 [OF conjunct2 [OF 3]]
          conjI [OF conjunct2 [OF conjunct2 [OF 3]] conjI [OF 4 conjI [OF 5 6]]]]]]])
qed

lemma ps_four_tracks_decoder:
  "0 \<le> t \<Longrightarrow> t < 4 \<Longrightarrow>
   (avcodec_find_decoder lib0 (fmt_ctx ps_four_tracks)
      (aud_stream_indices ps_four_tracks
         ! nat ((aud_selection ps_four_tracks + t) mod aud_count ps_four_tracks))
    \<and> 0 \<le> fst (avcodec_open2 lib0 (fmt_ctx ps_four_tracks)
      (aud_stream_indices ps_four_tracks
         ! nat ((aud_selection ps_four_tracks + t) mod aud_count ps_four_tracks))))
   = (t \<noteq> 3)"
proof -
  assume "0 \<le> t" "t < 4"
  then have "t = 0 \<or> t = 1 \<or> t = 2 \<or> t = 3" by auto
  then show ?thesis
    by (auto simp: ps_four_tracks_def ps0_def lib0_def numeral_2_eq_2 numeral_3_eq_3)
qed

theorem audio_cycle_index_witness:
  "aud_selection ps_four_tracks = 0 \<and> aud_count ps_four_tracks = 4
   \<and> aud_stream_indices ps_four_tracks = [1, 2, 3, 9]
   \<and> aud_selection (audio_cycle_times lib0 ps_four_tracks [10, 11]) = 2
   \<and> aud_selection (audio_cycle_times lib0 ps_four_tracks [10, 11, 12, 13]) = 2
   \<and> aud_selection (audio_cycle lib0 ps_four_tracks 10) = 1
   \<and> audio_stream_idx (audio_cycle lib0 ps_four_tracks 10) = 2
   \<and> seek_request (audio_cycle lib0 ps_four_tracks 10) = 1"
proof -
  have a: "0 \<le> aud_selection ps_four_tracks"
    "aud_selection ps_four_tracks < aud_count ps_four_tracks \<or> aud_count ps_four_tracks = 0"
    and v: "aud_selection ps_four_tracks = 0" "aud_count ps_four_tracks = 4"
      "aud_stream_indices ps_four_tracks = [1, 2, 3, 9]"
    by (simp_all add: ps_four_tracks_def ps0_def)
  have d: "avcodec_find_decoder lib0 (fmt_ctx ps_four_tracks)
             (aud_stream_indices ps_four_tracks
                ! nat ((aud_selection ps_four_tracks + j) mod aud_count ps_four_tracks))
         \<and> 0 \<le> fst (avcodec_open2 lib0 (fmt_ctx ps_four_tracks)
             (aud_stream_indices ps_four_tracks
                ! nat ((aud_selection ps_four_tracks + j) mod aud_count ps_four_tracks)))"
    if "1 \<le> j \<and> j \<le> 2" for j
    using that ps_four_tracks_decoder [of j] by simp
  have b: "\<not> avcodec_find_decoder lib0 (fmt_ctx ps_four_tracks)
             (aud_stream_indices ps_four_tracks
                ! nat ((aud_selection ps_four_tracks + int 2 + 1) mod aud_count ps_four_tracks))
         \<or> fst (avcodec_open2 lib0 (fmt_ctx ps_four_tracks)
             (aud_stream_indices ps_four_tracks
                ! nat ((aud_selection ps_four_tracks + int 2 + 1) mod aud_count ps_four_tracks))) < 0"
    by (simp add: ps_four_tracks_def ps0_def lib0_def)
  note th2 = audio_cycle_index [OF a, of "[10, 11]" lib0 10]
  from th2 have "1 \<le> aud_count ps_four_tracks
          \<and> (2 \<le> aud_count ps_four_tracks \<longrightarrow>
               (\<forall>j. 1 \<le> j \<and> j \<le> int (length [10, 11 :: real]) \<longrightarrow>
                  avcodec_find_decoder lib0 (fmt_ctx ps_four_tracks)
                    (aud_stream_indices ps_four_tracks
                       ! nat ((aud_selection ps_four_tracks + j) mod aud_count ps_four_tracks))
                \<and> 0 \<le> fst (avcodec_open2 lib0 (fmt_ctx ps_four_tracks)
                    (aud_stream_indices ps_four_tracks
                       ! nat ((aud_selection ps_four_tracks + j) mod aud_count ps_four_tracks)))))
          \<longrightarrow> aud_selection (audio_cycle_times lib0 ps_four_tracks [10, 11])
                = (aud_selection ps_four_tracks + int (length [10, 11 :: real])) mod aud_count ps_four_tracks"
    by (rule conjunct1)
  moreover have "1 \<le> aud_count ps_four_tracks
          \<and> (2 \<le> aud_count ps_four_tracks \<longrightarrow>
               (\<forall>j. 1 \<le> j \<and> j \<le> int (length [10, 11 :: real]) \<longrightarrow>
                  avcodec_find_decoder lib0 (fmt_ctx ps_four_tracks)
                    (aud_stream_indices ps_four_tracks
                       ! nat ((aud_selection ps_four_tracks + j) mod aud_count ps_four_tracks))
                \<and> 0 \<le> fst (avcodec_open2 lib0 (fmt_ctx ps_four_tracks)
                    (aud_stream_indices ps_four_tracks
                       ! nat ((aud_selection ps_four_tracks + j) mod aud_count ps_four_tracks)))))"
    using d by (simp add: v(2))
  ultimately have "aud_selection (audio_cycle_times lib0 ps_four_tracks [10, 11])
                = (aud_selection ps_four_tracks + int (length [10, 11 :: real])) mod aud_count ps_four_tracks"
    by (rule mp)
  then have 1: "aud_selection (audio_cycle_times lib0 ps_four_tracks [10, 11]) = 2"
    by (simp add: v)
  note th4 = audio_cycle_index [OF a, of "[10, 11, 12, 13]" lib0 10]
  from th4 have "2 \<le> aud_count ps_four_tracks \<and> 2 < length [10, 11, 12, 13 :: real]
              \<and> (\<forall>j. 1 \<le> j \<and> j \<le> int 2 \<longrightarrow>
                    avcodec_find_decoder lib0 (fmt_ctx ps_four_tracks)
                      (aud_stream_indices ps_four_tracks
                         ! nat ((aud_selection ps_four_tracks + j) mod aud_count ps_four_tracks))
                  \<and> 0 \<le> fst (avcodec_open2 lib0 (fmt_ctx ps_four_tracks)
                      (aud_stream_indices ps_four_tracks
                         ! nat ((aud_selection ps_four_tracks + j) mod aud_count ps_four_tracks))))
              \<and> (\<not> avcodec_find_decoder lib0 (fmt_ctx ps_four_tracks)
                      (aud_stream_indices ps_four_tracks
                         ! nat ((aud_selection ps_four_tracks + int 2 + 1) mod aud_count ps_four_tracks))
                  \<or> fst (avcodec_open2 lib0 (fmt_ctx ps_four_tracks)
                      (aud_stream_indices ps_four_tracks
                         ! nat ((aud_selection ps_four_tracks + int 2 + 1) mod aud_count ps_four_tracks))) < 0)
              \<longrightarrow> aud_selection (audio_cycle_times lib0 ps_four_tracks [10, 11, 12, 13])
                    = (aud_selection ps_four_tracks + int 2) mod aud_count ps_four_tracks"
    by blast
  moreover have "2 \<le> aud_count ps_four_tracks \<and> 2 < length [10, 11, 12, 13 :: real]
              \<and> (\<forall>j. 1 \<le> j \<and> j \<le> int 2 \<longrightarrow>
                    avcodec_find_decoder lib0 (fmt_ctx ps_four_tracks)
                      (aud_stream_indices ps_four_tracks
                         ! nat ((aud_selection ps_four_tracks + j) mod aud_count ps_four_tracks))
                  \<and> 0 \<le> fst (avcodec_open2 lib0 (fmt_ctx ps_four_tracks)
                      (aud_stream_indices ps_four_tracks
                         ! nat ((aud_selection ps_four_tracks + j) mod aud_count ps_four_tracks))))
              \<and> (\<not> avcodec_find_decoder lib0 (fmt_ctx ps_four_tracks)
                      (aud_stream_indices ps_four_tracks
                         ! nat ((aud_selection ps_four_tracks + int 2 + 1) mod aud_count ps_four_tracks))
                  \<or> fst (avcodec_open2 lib0 (fmt_ctx ps_four_tracks)
                      (aud_stream_indices ps_four_tracks
                         ! nat ((aud_selection ps_four_tracks + int 2 + 1) mod aud_count ps_four_tracks))) < 0)"
    using d b by (simp add: v(2))
  ultimately have "aud_selection (audio_cycle_times lib0 ps_four_tracks [10, 11, 12, 13])
                    = (aud_selection ps_four_tracks + int 2) mod aud_count ps_four_tracks"
    by (rule mp)
  then have 2: "aud_selection (audio_cycle_times lib0 ps_four_tracks [10, 11, 12, 13]) = 2"
    by (simp add: v)
  have 3: "aud_selection (audio_cycle lib0 ps_four_tracks 10) = 1
     \<and> audio_stream_idx (audio_cycle lib0 ps_four_tracks 10) = 2
     \<and> seek_request (audio_cycle lib0 ps_four_tracks 10) = 1"
    by (simp add: audio_cycle_def Let_def ps_four_tracks_def ps0_def lib0_def c_rem_def)
  from v 1 2 3 show ?thesis by simp
qed

text \<open>
  C8 as stated holds for every catalogue and every N.  With a second track for which no
  decoder is found, one cycle leaves the selection at 0, while \<open>(0 + 1) mod 2\<close> is 1.
\<close>

theorem audio_cycle_no_decoder_counterexample:
  "aud_count ps_no_decoder = 2 \<and> aud_selection ps_no_decoder = 0
   \<and> aud_selection (audio_cycle_times lib0 ps_no_decoder [10]) = 0
   \<and> (aud_selection ps_no_decoder + int (length [10 :: real])) mod aud_count ps_no_decoder = 1"
  by (simp add: audio_cycle_def Let_def ps_no_decoder_def ps0_def lib0_def c_rem_def)

subsection \<open>Subtitle cue selection\<close>

lemma sub_timing_window:
  "fst (sub_timing tb pkt sub)
     = (if pts pkt \<noteq> AV_NOPTS_VALUE then real_of_int (pts pkt) * av_q2d tb else 0)
       + real (start_display_time sub) / 1000
   \<and> snd (sub_timing tb pkt sub)
     = (if end_display_time sub \<noteq> 0
        then (if pts pkt \<noteq> AV_NOPTS_VALUE then real_of_int (pts pkt) * av_q2d tb else 0)
             + real (end_display_time sub) / 1000
        else if duration pkt > 0
        then (if pts pkt \<noteq> AV_NOPTS_VALUE then real_of_int (pts pkt) * av_q2d tb else 0)
             + real_of_int (duration pkt) * av_q2d tb
        else fst (sub_timing tb pkt sub) + 3)"
  by (simp add: sub_timing_def Let_def)

lemma first_kept_Cons:
  "first_kept keep (x # xs) = (if keep x then x else first_kept keep xs)"
  by (simp add: first_kept_def)

lemma sub_scan_first:
  assumes "abort_request q = 0"
  shows "\<exists>c' q'. sub_scan L tb now c q
            = Some (c', q', first_kept (sub_keep now) (sub_candidates L tb c (nodes q)))
       \<and> nodes q' = drop (Suc (length (takeWhile (\<lambda>x. \<not> sub_keep now x)
                                    (sub_candidates L tb c (nodes q))))) (nodes q)
       \<and> abort_request q' = 0"
  using assms
proof (induction "nodes q" arbitrary: q c)
  case Nil
  then have "pq_get q 0 [] = Some (PqEmpty, q)"
    by (simp add: pq_get.simps [of q 0 "[]"])
  with Nil show ?case
    by (simp add: sub_scan.simps [of L tb now c q] first_kept_def)
next
  case (Cons pkt rest)
  define q1 where "q1 = q\<lparr>nodes := rest, nb_packets := nb_packets q - 1,
                            size_pq := size_pq q - size_pkt pkt\<rparr>"
  have g: "pq_get q 0 [] = Some (PqPacket pkt, q1)"
    using Cons.hyps(2) [symmetric] Cons.prems by (simp add: pq_get.simps [of q 0 "[]"] q1_def)
  have n1: "rest = nodes q1" "abort_request q1 = 0"
    using Cons.prems by (simp_all add: q1_def)
  obtain ret got sub c1 where d: "avcodec_decode_subtitle2 L c pkt = ((ret, got, sub), c1)"
    by (cases "avcodec_decode_subtitle2 L c pkt") auto
  define x where "x = (if ret < 0 \<or> got = 0 then None
           else Some (sub_extract_text sub, fst (sub_timing tb pkt sub), snd (sub_timing tb pkt sub)))"
  have cs: "sub_candidates L tb c (nodes q) = x # sub_candidates L tb c1 (nodes q1)"
    using Cons.hyps(2) [symmetric] d n1 by (simp add: x_def)
  have nd: "nodes q = pkt # nodes q1"
    using Cons.hyps(2) n1 by simp
  show ?case
  proof (cases "sub_keep now x")
    case True
    then have k: "\<not> (ret < 0 \<or> got = 0)" "sub_extract_text sub \<noteq> []"
      "\<not> snd (sub_timing tb pkt sub) < now"
      by (auto simp: sub_keep_def x_def split: if_splits)
    have sc: "sub_scan L tb now c q = Some (c1, q1, x)"
      using g d k by (simp add: sub_scan.simps [of L tb now c q] x_def)
    have fk: "first_kept (sub_keep now) (sub_candidates L tb c (nodes q)) = x"
      unfolding cs using True by (simp add: first_kept_Cons)
    have tw: "takeWhile (\<lambda>x. \<not> sub_keep now x) (sub_candidates L tb c (nodes q)) = []"
      unfolding cs using True by simp
    have dr: "drop (Suc (length ([] :: (string \<times> real \<times> real) option list))) (nodes q) = nodes q1"
      unfolding nd by simp
    show ?thesis
      unfolding fk tw dr sc using n1(2) by simp
  next
    case False
    then have k: "ret < 0 \<or> got = 0 \<or> sub_extract_text sub = []
        \<or> snd (sub_timing tb pkt sub) < now"
      by (auto simp: sub_keep_def x_def split: if_splits)
    have sc: "sub_scan L tb now c q = sub_scan L tb now c1 q1"
      using g d k by (auto simp: sub_scan.simps [of L tb now c q])
    have fk: "first_kept (sub_keep now) (sub_candidates L tb c (nodes q))
                = first_kept (sub_keep now) (sub_candidates L tb c1 (nodes q1))"
      unfolding cs using False by (simp add: first_kept_Cons)
    have tw: "length (takeWhile (\<lambda>x. \<not> sub_keep now x) (sub_candidates L tb c (nodes q)))
                = Suc (length (takeWhile (\<lambda>x. \<not> sub_keep now x) (sub_candidates L tb c1 (nodes q1))))"
      unfolding cs using False by simp
    have dr: "drop (Suc (Suc n)) (nodes q) = drop (Suc n) (nodes q1)" for n
      unfolding nd by simp
    from Cons.hyps(1) [OF n1, of c1] show ?thesis
      unfolding fk tw dr sc .
  qed
qed

lemma first_kept_holds: "first_kept keep cands = Some y \<Longrightarrow> keep (Some y)"
  by (induction cands) (simp_all add: first_kept_def split: if_splits)

lemma first_kept_kept:
  "first_kept (sub_keep now) cands = Some (t, s, e) \<Longrightarrow> t \<noteq> [] \<and> \<not> e < now"
  by (drule first_kept_holds) (simp add: sub_keep_def)

lemma first_kept_none:
  "first_kept keep cands = None \<Longrightarrow> \<not> keep None
     \<Longrightarrow> length (takeWhile (\<lambda>x. \<not> keep x) cands) = length cands"
  by (induction cands) (auto simp: first_kept_Cons split: if_splits)

lemma first_kept_None:
  "first_kept (sub_keep now) cands = None \<Longrightarrow>
     length (takeWhile (\<lambda>x. \<not> sub_keep now x) cands) = length cands"
  by (erule first_kept_none) (simp add: sub_keep_def)

lemma length_sub_candidates: "length (sub_candidates L tb c pkts) = length pkts"
  by (induction pkts arbitrary: c) (auto split: prod.splits)

text \<open>
  C7 (amended).  \<open>sub_decode_pending\<close> with an open subtitle codec and a selected track
  returns, and a cue that is valid afterwards never ends before \<open>now\<close> (the audio clock,
  or the video clock without an audio stream).  A current cue that still covers \<open>now\<close>
  is kept and nothing is popped.  Otherwise the packets of the track's queue are popped
  and decoded in order; the window of each starts at the packet PTS plus
  \<open>start_display_time\<close> and ends at the PTS plus \<open>end_display_time\<close> when that is not 0,
  else at the PTS plus the packet duration when that is positive, else 3 s after the
  start.  The cue kept is the first packet that decodes to a subtitle with a non-empty
  text whose end is not before \<open>now\<close>; the packets before it (not decodable, without
  text, or expired) are dropped, the packets after it stay in the queue; when there is
  none the queue is emptied and no cue is valid.
\<close>

theorem sub_decode_pending_selects:
  assumes "sub_codec_ctx ps = Some c" and "0 \<le> sub_active_idx ps"
    and "0 < sub_selection ps" and "sub_selection ps \<le> sub_count ps"
    and "sub_count ps \<le> MAX_SUB_STREAMS" and "length (sub_pqs ps) = nat MAX_SUB_STREAMS"
    and "abort_request (sub_pqs ps ! nat (sub_selection ps - 1)) = 0"
    and "tb = stream_time_base L (fmt_ctx ps) (sub_active_idx ps)"
    and "cands = sub_candidates L tb c (nodes (sub_pqs ps ! nat (sub_selection ps - 1)))"
  shows "\<exists>ps'. sub_decode_pending L ps = Some ps'
       \<and> (sub_valid ps' \<noteq> 0 \<longrightarrow> \<not> sub_end_pts ps' < sub_now ps)
       \<and> (sub_valid ps \<noteq> 0 \<and> sub_now ps \<le> sub_end_pts ps \<longrightarrow> ps' = ps)
       \<and> (\<not> (sub_valid ps \<noteq> 0 \<and> sub_now ps \<le> sub_end_pts ps) \<longrightarrow>
            (case first_kept (sub_keep (sub_now ps)) cands of
               None \<Rightarrow> sub_valid ps' = 0 \<and> nodes (sub_pqs ps' ! nat (sub_selection ps - 1)) = []
             | Some (t, s, e) \<Rightarrow>
                 sub_valid ps' = 1 \<and> sub_text ps' = take (SUB_TEXT_SIZE - 1) t
               \<and> sub_start_pts ps' = s \<and> sub_end_pts ps' = e \<and> t \<noteq> [] \<and> \<not> e < sub_now ps)
          \<and> nodes (sub_pqs ps' ! nat (sub_selection ps - 1))
              = drop (Suc (length (takeWhile (\<lambda>x. \<not> sub_keep (sub_now ps) x) cands)))
                  (nodes (sub_pqs ps ! nat (sub_selection ps - 1))))
       \<and> (\<forall>pkt sub.
            fst (sub_timing tb pkt sub)
              = (if pts pkt \<noteq> AV_NOPTS_VALUE then real_of_int (pts pkt) * av_q2d tb else 0)
                + real (start_display_time sub) / 1000
          \<and> snd (sub_timing tb pkt sub)
              = (if end_display_time sub \<noteq> 0
                 then (if pts pkt \<noteq> AV_NOPTS_VALUE then real_of_int (pts pkt) * av_q2d tb else 0)
                      + real (end_display_time sub) / 1000
                 else if duration pkt > 0
                 then (if pts pkt \<noteq> AV_NOPTS_VALUE then real_of_int (pts pkt) * av_q2d tb else 0)
                      + real_of_int (duration pkt) * av_q2d tb
                 else fst (sub_timing tb pkt sub) + 3))"
proof -
  define i where "i = nat (sub_selection ps - 1)"
  have i: "i < length (sub_pqs ps)"
    using assms(3-6) by (simp add: i_def MAX_SUB_STREAMS_def)
  have w: "\<forall>pkt sub.
            fst (sub_timing tb pkt sub)
              = (if pts pkt \<noteq> AV_NOPTS_VALUE then real_of_int (pts pkt) * av_q2d tb else 0)
                + real (start_display_time sub) / 1000
          \<and> snd (sub_timing tb pkt sub)
              = (if end_display_time sub \<noteq> 0
                 then (if pts pkt \<noteq> AV_NOPTS_VALUE then real_of_int (pts pkt) * av_q2d tb else 0)
                      + real (end_display_time sub) / 1000
                 else if duration pkt > 0
                 then (if pts pkt \<noteq> AV_NOPTS_VALUE then real_of_int (pts pkt) * av_q2d tb else 0)
                      + real_of_int (duration pkt) * av_q2d tb
                 else fst (sub_timing tb pkt sub) + 3)"
    using sub_timing_window [of tb] by blast
  show ?thesis
  proof (cases "sub_valid ps \<noteq> 0 \<and> sub_now ps \<le> sub_end_pts ps")
    case True
    then have "sub_decode_pending L ps = Some ps"
      using assms(1-4) by (simp add: sub_decode_pending_def Let_def)
    with True w show ?thesis by (intro exI [of _ ps]) auto
  next
    case False
    from sub_scan_first [OF assms(7), of L tb "sub_now ps" c]
    obtain c' q' where sc: "sub_scan L tb (sub_now ps) c (sub_pqs ps ! i)
            = Some (c', q', first_kept (sub_keep (sub_now ps)) cands)"
      and nq: "nodes q' = drop (Suc (length (takeWhile (\<lambda>x. \<not> sub_keep (sub_now ps) x) cands)))
                 (nodes (sub_pqs ps ! i))"
      unfolding i_def assms(9) by blast
    define ps1 where "ps1 = ps\<lparr>sub_valid := 0, sub_codec_ctx := Some c',
                                 sub_pqs := (sub_pqs ps)[i := q']\<rparr>"
    define ps' where "ps' = (case first_kept (sub_keep (sub_now ps)) cands of
                               None \<Rightarrow> ps1
                             | Some (text, start, end1) \<Rightarrow>
                                 ps1\<lparr>sub_text := take (SUB_TEXT_SIZE - 1) text,
                                     sub_start_pts := start, sub_end_pts := end1, sub_valid := 1\<rparr>)"
    have r: "sub_decode_pending L ps = Some ps'"
      using assms(1-4) False sc
      by (auto simp: sub_decode_pending_def Let_def i_def [symmetric] assms(8) [symmetric]
          ps'_def ps1_def split: option.splits)
    have q: "sub_pqs ps' ! i = q'"
      using i by (simp add: ps'_def ps1_def split: option.splits)
    have e: "nodes q' = []" if "first_kept (sub_keep (sub_now ps)) cands = None"
      using first_kept_None [OF that] nq
      by (simp add: assms(9) length_sub_candidates i_def)
    have k: "case first_kept (sub_keep (sub_now ps)) cands of
               None \<Rightarrow> sub_valid ps' = 0 \<and> nodes (sub_pqs ps' ! i) = []
             | Some (t, s, e) \<Rightarrow>
                 sub_valid ps' = 1 \<and> sub_text ps' = take (SUB_TEXT_SIZE - 1) t
               \<and> sub_start_pts ps' = s \<and> sub_end_pts ps' = e \<and> t \<noteq> [] \<and> \<not> e < sub_now ps"
    proof (cases "first_kept (sub_keep (sub_now ps)) cands")
      case None
      with e q show ?thesis by (simp add: ps'_def ps1_def)
    next
      case (Some y)
      obtain t s e where y: "y = (t, s, e)" by (cases y)
      from first_kept_kept [of "sub_now ps" cands t s e] Some y
      show ?thesis by (simp add: ps'_def ps1_def)
    qed
    have v: "sub_valid ps' \<noteq> 0 \<longrightarrow> \<not> sub_end_pts ps' < sub_now ps"
      using k by (auto split: option.splits)
    have n: "nodes (sub_pqs ps' ! i)
              = drop (Suc (length (takeWhile (\<lambda>x. \<not> sub_keep (sub_now ps) x) cands)))
                  (nodes (sub_pqs ps ! i))"
      using q nq by simp
    have u: "sub_valid ps \<noteq> 0 \<and> sub_now ps \<le> sub_end_pts ps \<longrightarrow> ps' = ps"
      using False by blast
    show ?thesis
      unfolding i_def [symmetric]
      using r v u k n w by blast
  qed
qed

lemma sub_decode_pending_ps_sub_queued:
  "sub_decode_pending lib0 ps_sub_queued = Some ps_sub_shown"
  by (simp add: sub_decode_pending_def Let_def ps_sub_queued_def ps_sub_shown_def ps0_def lib0_def
      sub_now_def sub_scan.simps pq_get.simps sub_timing_def sub_extract_text_def sub_rect_text_def
      pkt_sub_old_def pkt_sub_empty_def pkt_sub_hi_def pkt_sub_next_def
      AV_NOPTS_VALUE_def av_q2d_def SUB_TEXT_SIZE_def)

lemma sub_candidates_ps_sub_queued:
  "sub_candidates lib0 \<lparr>num = 1, den = 1000\<rparr> [] [pkt_sub_old, pkt_sub_empty, pkt_sub_hi, pkt_sub_next]
     = [Some (''Hi'', 0, 1 / 2), Some ([], 1, 4), Some (''Hi'', 2, 5 / 2), Some (''Hi'', 3, 7 / 2)]"
  by (simp add: lib0_def sub_timing_def sub_extract_text_def sub_rect_text_def Let_def
      pkt_sub_old_def pkt_sub_empty_def pkt_sub_hi_def pkt_sub_next_def
      AV_NOPTS_VALUE_def av_q2d_def SUB_TEXT_SIZE_def)

theorem sub_decode_pending_selects_witness:
  "sub_decode_pending lib0 ps_sub_queued = Some ps_sub_shown
   \<and> \<not> sub_end_pts ps_sub_shown < sub_now ps_sub_queued
   \<and> sub_valid ps_sub_shown = 1 \<and> sub_text ps_sub_shown = ''Hi''
   \<and> sub_end_pts ps_sub_shown = 5 / 2
   \<and> nodes (sub_pqs ps_sub_shown ! 0) = [pkt_sub_next]"
proof -
  have a: "sub_codec_ctx ps_sub_queued = Some []" "0 \<le> sub_active_idx ps_sub_queued"
    "0 < sub_selection ps_sub_queued" "sub_selection ps_sub_queued \<le> sub_count ps_sub_queued"
    "sub_count ps_sub_queued \<le> MAX_SUB_STREAMS"
    "length (sub_pqs ps_sub_queued) = nat MAX_SUB_STREAMS"
    "abort_request (sub_pqs ps_sub_queued ! nat (sub_selection ps_sub_queued - 1)) = 0"
    by (simp_all add: ps_sub_queued_def ps0_def MAX_SUB_STREAMS_def)
  have v: "sub_valid ps_sub_shown = 1" "sub_text ps_sub_shown = ''Hi''"
    "sub_end_pts ps_sub_shown = 5 / 2" "nodes (sub_pqs ps_sub_shown ! 0) = [pkt_sub_next]"
    by (simp_all add: ps_sub_shown_def)
  from sub_decode_pending_selects [OF a refl refl, of lib0]
  obtain ps' where r: "sub_decode_pending lib0 ps_sub_queued = Some ps'"
    and e: "sub_valid ps' \<noteq> 0 \<longrightarrow> \<not> sub_end_pts ps' < sub_now ps_sub_queued"
    by blast
  from r have p: "ps' = ps_sub_shown"
    by (simp add: sub_decode_pending_ps_sub_queued)
  from e v(1) have c: "\<not> sub_end_pts ps_sub_shown < sub_now ps_sub_queued"
    unfolding p by simp
  from r c v show ?thesis unfolding p by blast
qed

text \<open>
  C7 as stated keeps the first candidate that is not expired.  The second packet of this
  queue decodes to a subtitle without text whose window 1 \<dots> 4 covers \<open>now = 1\<close>: it is
  the first candidate that is not expired, and the code drops it and keeps the third,
  whose window is 2 \<dots> 2.5.
\<close>

theorem sub_decode_pending_first_counterexample:
  "sub_now ps_sub_queued = 1
   \<and> first_kept (spec_sub_keep 1)
        (sub_candidates lib0 (stream_time_base lib0 (fmt_ctx ps_sub_queued) (sub_active_idx ps_sub_queued)) []
           (nodes (sub_pqs ps_sub_queued ! 0)))
       = Some ([], 1, 4)
   \<and> sub_decode_pending lib0 ps_sub_queued = Some ps_sub_shown
   \<and> sub_text ps_sub_shown = ''Hi'' \<and> sub_start_pts ps_sub_shown = 2
   \<and> sub_end_pts ps_sub_shown = 5 / 2"
proof -
  have n: "sub_now ps_sub_queued = 1"
    by (simp add: sub_now_def ps_sub_queued_def ps0_def)
  have tb: "stream_time_base lib0 (fmt_ctx ps_sub_queued) (sub_active_idx ps_sub_queued)
              = \<lparr>num = 1, den = 1000\<rparr>"
    by (simp add: lib0_def)
  have q: "nodes (sub_pqs ps_sub_queued ! 0) = [pkt_sub_old, pkt_sub_empty, pkt_sub_hi, pkt_sub_next]"
    by (simp add: ps_sub_queued_def)
  have f: "first_kept (spec_sub_keep 1)
        (sub_candidates lib0 (stream_time_base lib0 (fmt_ctx ps_sub_queued) (sub_active_idx ps_sub_queued)) []
           (nodes (sub_pqs ps_sub_queued ! 0)))
       = Some ([], 1, 4)"
    unfolding tb q sub_candidates_ps_sub_queued
    by (simp add: first_kept_def spec_sub_keep_def)
  have s: "sub_text ps_sub_shown = ''Hi''" "sub_start_pts ps_sub_shown = 2"
    "sub_end_pts ps_sub_shown = 5 / 2"
    by (simp_all add: ps_sub_shown_def)
  from n f sub_decode_pending_ps_sub_queued s show ?thesis by blast
qed

end
